theory Spec2Isabelle
  imports Complex_Main "HOL-Library.Word"
begin

unbundle bit_operations_syntax

section \<open>Python and numpy primitives used by the calibration scripts\<close>

text \<open>
  Exceptions are values: every function that can raise returns \<open>error + 'a\<close>, with
  \<open>Inl\<close> for the exception. Python floats are modelled as reals (rounding is left out);
  Python's unbounded integers and the \<open>int64\<close> record counts (bounded by the number of
  scanned rows, far below \<open>2^63\<close>) are \<open>int\<close>; the \<open>int8\<close> columns are \<open>8 word\<close>.
\<close>

datatype error = ZeroDivisionError | IndexError | ValueError | RuntimeError | KeyError

type_synonym int8 = "8 word"

definition and_then :: "error + 'a \<Rightarrow> ('a \<Rightarrow> error + 'b) \<Rightarrow> error + 'b" where
  "and_then m f = (case m of Inl e \<Rightarrow> Inl e | Inr v \<Rightarrow> f v)"

text \<open>A \<open>for\<close> loop that appends one result per element and stops at the first exception.\<close>

fun for_each :: "('a \<Rightarrow> error + 'b) \<Rightarrow> 'a list \<Rightarrow> error + 'b list" where
  "for_each f [] = Inr []"
| "for_each f (x # xs) =
     and_then (f x) (\<lambda>r. and_then (for_each f xs) (\<lambda>rs. Inr (r # rs)))"

text \<open>Python's \<open>a / b\<close> on integers: raises on a zero divisor.\<close>

definition truediv :: "int \<Rightarrow> int \<Rightarrow> error + real" where
  "truediv a b = (if b = 0 then Inl ZeroDivisionError else Inr (real_of_int a / real_of_int b))"

text \<open>numpy's boolean-mask indexing \<open>a[m]\<close>: the mask must have the length of \<open>a\<close>.\<close>

definition mask_select :: "'a list \<Rightarrow> bool list \<Rightarrow> error + 'a list" where
  "mask_select a msk =
     (if length msk \<noteq> length a then Inl IndexError
      else Inr (map fst (filter snd (zip a msk))))"

section \<open>Metrics from the 8x2 histogram (test/evaluate.py)\<close>

text \<open>The histogram \<open>counts\<close>: row \<open>p\<close> is \<open>(counts[p, 0], counts[p, 1])\<close>.\<close>

type_synonym counts = "(int \<times> int) list"

definition W_SM :: real where "W_SM = 0.6170"
definition W_CR :: real where "W_CR = 0.2946"
definition W_PH :: real where "W_PH = 0.0884"

definition SCORES_BY_PATTERN :: "real list" where
  "SCORES_BY_PATTERN =
     [0, W_SM, W_CR, W_SM + W_CR, W_PH, W_SM + W_PH, W_CR + W_PH, W_SM + W_CR + W_PH]"

text \<open>
  The dictionary returned by \<open>metrics_at_threshold\<close>, and the row of
  \<open>eval_thresholds_from_counts\<close>, which has the same keys and six more.
\<close>

record metrics =
  threshold :: real
  tp :: int
  fp :: int
  tn :: int
  fn :: int
  tpr :: real
  fpr :: real
  precision :: real

record metrics_row = metrics +
  specificity :: real
  accuracy :: real
  f1 :: real
  youdenJ :: real
  sample_pos :: int
  sample_neg :: int

text \<open>The body of the loop over \<open>thresholds\<close> in \<open>eval_thresholds_from_counts\<close>.\<close>

definition eval_threshold ::
  "real list \<Rightarrow> int list \<Rightarrow> int list \<Rightarrow> int \<Rightarrow> int \<Rightarrow> real \<Rightarrow> error + metrics_row" where
  "eval_threshold s pos_counts neg_counts total_pos total_neg thr =
     (let msk = map (\<lambda>v. v \<ge> thr) s in
      and_then (mask_select pos_counts msk) (\<lambda>sel_pos.
      and_then (mask_select neg_counts msk) (\<lambda>sel_neg.
        let tp' = sum_list sel_pos;
            fp' = sum_list sel_neg;
            fn' = total_pos - tp';
            tn' = total_neg - fp'
        in
        and_then (if total_pos \<noteq> 0 then truediv tp' total_pos else Inr 0) (\<lambda>tpr'.
        and_then (if total_neg \<noteq> 0 then truediv fp' total_neg else Inr 0) (\<lambda>fpr'.
        and_then (if tp' + fp' \<noteq> 0 then truediv tp' (tp' + fp') else Inr 0) (\<lambda>prec.
        and_then (if total_neg \<noteq> 0 then truediv tn' total_neg else Inr 0) (\<lambda>spec.
        and_then (if total_pos + total_neg \<noteq> 0
                  then truediv (tp' + tn') (total_pos + total_neg) else Inr 0) (\<lambda>acc.
        and_then (if 2 * tp' + fp' + fn' \<noteq> 0
                  then truediv (2 * tp') (2 * tp' + fp' + fn') else Inr 0) (\<lambda>f1'.
          let j = tpr' - fpr' in
          Inr \<lparr> threshold = thr, tp = tp', fp = fp', tn = tn', fn = fn',
                tpr = tpr', fpr = fpr', precision = prec,
                specificity = spec, accuracy = acc, f1 = f1', youdenJ = j,
                sample_pos = total_pos, sample_neg = total_neg \<rparr>)))))))))"

definition eval_thresholds_from_counts :: "counts \<Rightarrow> real list \<Rightarrow> error + metrics_row list" where
  "eval_thresholds_from_counts counts thresholds =
     (let s = SCORES_BY_PATTERN;
          pos_counts = map snd counts;
          neg_counts = map fst counts;
          total_pos = sum_list pos_counts;
          total_neg = sum_list neg_counts
      in for_each (eval_threshold s pos_counts neg_counts total_pos total_neg) thresholds)"

text \<open>\<open>auto_thresholds\<close>: \<open>sorted(set(...))\<close> of the eight scores.\<close>

definition auto_thresholds :: "real list" where
  "auto_thresholds = sort (remdups SCORES_BY_PATTERN)"

text \<open>numpy's \<open>argmax\<close> and \<open>argmin\<close>: the first index of the extreme value; an empty
  array raises.\<close>

definition argmax :: "real list \<Rightarrow> error + nat" where
  "argmax xs =
     (if xs = [] then Inl ValueError
      else Inr (hd (filter (\<lambda>i. \<forall>v \<in> set xs. v \<le> xs ! i) [0..<length xs])))"

definition argmin :: "real list \<Rightarrow> error + nat" where
  "argmin xs =
     (if xs = [] then Inl ValueError
      else Inr (hd (filter (\<lambda>i. \<forall>v \<in> set xs. xs ! i \<le> v) [0..<length xs])))"

text \<open>
  Lines 201 to 209 of \<open>main\<close>: the thresholds evaluated (the score levels, with the
  \<open>--threshold\<close> arguments \<open>extra\<close> merged in when there are any), the rows, and the row
  reported as best by Youden's J (\<open>None\<close> for \<open>best_idx = -1\<close>).
\<close>

definition main_thresholds :: "real list \<Rightarrow> real list" where
  "main_thresholds extra =
     (let thrs = auto_thresholds in
      if extra \<noteq> [] then sort (remdups (thrs @ extra)) else thrs)"

definition main_best_youden :: "counts \<Rightarrow> real list \<Rightarrow> error + metrics_row option" where
  "main_best_youden counts_global extra =
     (let thrs = main_thresholds extra in
      and_then (eval_thresholds_from_counts counts_global thrs) (\<lambda>rows_global.
        if rows_global \<noteq> [] then
          and_then (argmax (map youdenJ rows_global)) (\<lambda>best_idx. Inr (Some (rows_global ! best_idx)))
        else Inr None))"

section \<open>Metrics from a scored sample (train/final_threshold/find_threshold.py)\<close>

text \<open>numpy's elementwise \<open>&\<close> on two boolean arrays, with its broadcasting of a
  one-element array; other length mismatches raise.\<close>

definition broadcast_and :: "bool list \<Rightarrow> bool list \<Rightarrow> error + bool list" where
  "broadcast_and a b =
     (if length a = length b then Inr (map2 (\<and>) a b)
      else if length a = 1 then Inr (map (\<lambda>v. hd a \<and> v) b)
      else if length b = 1 then Inr (map (\<lambda>v. v \<and> hd b) a)
      else Inl ValueError)"

definition count_true :: "bool list \<Rightarrow> int" where
  "count_true bs = int (length (filter id bs))"

definition metrics_at_threshold :: "int8 list \<Rightarrow> real list \<Rightarrow> real \<Rightarrow> error + metrics" where
  "metrics_at_threshold y x thr =
     (let pred = map (\<lambda>v. v \<ge> thr) x in
      and_then (broadcast_and (map (\<lambda>p. p = True) pred) (map (\<lambda>l. l = 1) y)) (\<lambda>m_tp.
      and_then (broadcast_and (map (\<lambda>p. p = True) pred) (map (\<lambda>l. l = 0) y)) (\<lambda>m_fp.
      and_then (broadcast_and (map (\<lambda>p. p = False) pred) (map (\<lambda>l. l = 0) y)) (\<lambda>m_tn.
      and_then (broadcast_and (map (\<lambda>p. p = False) pred) (map (\<lambda>l. l = 1) y)) (\<lambda>m_fn.
        let tp' = count_true m_tp;
            fp' = count_true m_fp;
            tn' = count_true m_tn;
            fn' = count_true m_fn;
            pos = tp' + fn';
            neg = tn' + fp'
        in
        and_then (if pos \<noteq> 0 then truediv tp' pos else Inr 0) (\<lambda>tpr'.
        and_then (if neg \<noteq> 0 then truediv fp' neg else Inr 0) (\<lambda>fpr'.
        and_then (if tp' + fp' \<noteq> 0 then truediv tp' (tp' + fp') else Inr 0) (\<lambda>prec.
          Inr \<lparr> threshold = thr, tp = tp', fp = fp', tn = tn', fn = fn',
                tpr = tpr', fpr = fpr', precision = prec \<rparr>))))))))"

text \<open>
  \<open>pick_thresholds\<close>. The ROC arrays come from scikit-learn's \<open>roc_curve(y, x)\<close>, which
  is not part of the repository: its result \<open>(fpr, tpr, thr)\<close> is a parameter, a threshold
  \<open>None\<close> standing for the infinite one that \<open>~np.isinf(thr)\<close> removes. An entry of
  \<open>rec_thrs\<close> is the recall target with either the metrics at the chosen threshold or
  \<open>Unreachable\<close>, the dictionary whose threshold, tpr, fpr and precision are NaN and whose
  counts are \<open>None\<close>, which \<open>main\<close> prints as "not reachable".
\<close>

datatype recall_outcome = Unreachable | Reachable metrics

definition RECALL_TARGETS :: "real list" where
  "RECALL_TARGETS = [0.95, 0.99]"

definition recall_threshold ::
  "real list \<Rightarrow> real list \<Rightarrow> real list \<Rightarrow> int8 list \<Rightarrow> real list \<Rightarrow> real
     \<Rightarrow> error + (real \<times> recall_outcome)" where
  "recall_threshold fpr_a tpr_a thr_a y x target =
     (let idx = filter (\<lambda>i. tpr_a ! i \<ge> target) [0..<length tpr_a] in
      if idx = [] then Inr (target, Unreachable)
      else
        and_then (for_each (\<lambda>i. if i < length fpr_a then Inr (fpr_a ! i) else Inl IndexError) idx)
          (\<lambda>fpr_idx.
        and_then (argmin fpr_idx) (\<lambda>k.
          let sub = idx ! k in
          if sub < length thr_a then
            and_then (metrics_at_threshold y x (thr_a ! sub)) (\<lambda>mtr. Inr (target, Reachable mtr))
          else Inl IndexError)))"

definition pick_thresholds ::
  "(real list \<times> real list \<times> real option list) \<Rightarrow> int8 list \<Rightarrow> real list
     \<Rightarrow> error + ((real list \<times> real list \<times> real list) \<times> metrics \<times> (real \<times> recall_outcome) list)" where
  "pick_thresholds roc y x =
     (case roc of (fpr0, tpr0, thr0) \<Rightarrow>
      let m = map (\<lambda>t. t \<noteq> None) thr0 in
      and_then (mask_select fpr0 m) (\<lambda>fpr_a.
      and_then (mask_select tpr0 m) (\<lambda>tpr_a.
        let thr_a = [t. Some t \<leftarrow> thr0] in
        if length tpr_a \<noteq> length fpr_a then Inl ValueError
        else
          let j = map2 (\<lambda>t f. t - f) tpr_a fpr_a in
          and_then (argmax j) (\<lambda>j_idx.
          and_then (metrics_at_threshold y x (thr_a ! j_idx)) (\<lambda>best_j.
          and_then (for_each (recall_threshold fpr_a tpr_a thr_a y x) RECALL_TARGETS) (\<lambda>rec_thrs.
            Inr ((fpr_a, tpr_a, thr_a), best_j, rec_thrs)))))))"

section \<open>Histogram aggregation (weight/find_weights.py, test/evaluate.py)\<close>

text \<open>
  A row of the binarized Parquet dataset as a scan batch delivers it. A cell is \<open>None\<close>
  when \<open>np.isfinite\<close> is false for it (a null read as NaN, or an infinity), and otherwise
  holds the value that \<open>astype(np.int8)\<close> gives.
\<close>

record bin_row =
  src_family :: string
  label_same_family :: "int8 option"
  bin_string_minhash :: "int8 option"
  bin_code_regions :: "int8 option"
  bin_program_header :: "int8 option"

text \<open>The valid mask of one row, and the row's values \<open>(fam, y, sm, cr, ph)\<close> after the
  mask and the cast.\<close>

definition finite_row :: "bin_row \<Rightarrow> (string \<times> int8 \<times> int8 \<times> int8 \<times> int8) option" where
  "finite_row r =
     (case (label_same_family r, bin_string_minhash r, bin_code_regions r, bin_program_header r) of
        (Some y, Some sm, Some cr, Some ph) \<Rightarrow> Some (src_family r, y, sm, cr, ph)
      | _ \<Rightarrow> None)"

text \<open>\<open>pat = ((ph << 2) | (cr << 1) | sm).astype(np.int8)\<close>, in 8-bit arithmetic.\<close>

definition pattern :: "int8 \<Rightarrow> int8 \<Rightarrow> int8 \<Rightarrow> int8" where
  "pattern sm cr ph = (push_bit 2 ph) OR (push_bit 1 cr) OR sm"

text \<open>
  \<open>np.bincount(x, minlength)\<close>: raises on a negative entry; the result has
  \<open>max(minlength, max(x) + 1)\<close> entries.
\<close>

definition bincount :: "int8 list \<Rightarrow> nat \<Rightarrow> error + int list" where
  "bincount x minlength =
     (if \<exists>v \<in> set x. sint v < 0 then Inl ValueError
      else Inr (map (\<lambda>i. int (length (filter (\<lambda>v. unat v = i) x)))
                  [0..<fold (\<lambda>v n. max n (Suc (unat v))) x minlength]))"

text \<open>
  \<open>counts[:len(hist), lbl] += hist\<close>: the slice has \<open>min(len(hist), len(counts))\<close> rows
  and \<open>hist\<close> must have as many (a \<open>hist\<close> from \<open>bincount\<close> with \<open>minlength = 8\<close> has
  at least 8 entries, so it is never broadcast).
\<close>

definition add_hist :: "counts \<Rightarrow> nat \<Rightarrow> int list \<Rightarrow> error + counts" where
  "add_hist counts lbl hist =
     (let target = take (length hist) counts in
      if length hist \<noteq> length target then Inl ValueError
      else Inr (map2 (\<lambda>c h. if lbl = 0 then (fst c + h, snd c) else (fst c, snd c + h)) target hist
                @ drop (length hist) counts))"

text \<open>The body of \<open>for lbl in (0, 1)\<close>, on the \<open>(y, pat)\<close> pairs of the masked rows.\<close>

definition count_label :: "(int8 \<times> int8) list \<Rightarrow> counts \<Rightarrow> nat \<Rightarrow> error + counts" where
  "count_label ypat counts lbl =
     (let sel = filter (\<lambda>yp. fst yp = of_nat lbl) ypat in
      if sel \<noteq> [] then and_then (bincount (map snd sel) 8) (add_hist counts lbl)
      else Inr counts)"

text \<open>
  The block that both \<open>aggregate_counts\<close> functions share word for word: the patterns of
  the masked rows and the two per-label updates of a count matrix.
\<close>

definition count_patterns ::
  "(string \<times> int8 \<times> int8 \<times> int8 \<times> int8) list \<Rightarrow> counts \<Rightarrow> error + counts" where
  "count_patterns kept counts =
     (let ypat = map (\<lambda>(f, y, sm, cr, ph). (y, pattern sm cr ph)) kept in
      and_then (count_label ypat counts 0) (\<lambda>counts'. count_label ypat counts' 1))"

text \<open>
  \<open>aggregate_counts\<close> of weight/find_weights.py over the batches of the scanner. The state
  of the loop is \<open>(counts, total_seen, total_kept)\<close>; \<open>if families:\<close> holds for a
  non-empty list.
\<close>

definition batch_mask :: "string list option \<Rightarrow> bin_row \<Rightarrow> (string \<times> int8 \<times> int8 \<times> int8 \<times> int8) option" where
  "batch_mask families r =
     (case finite_row r of
        None \<Rightarrow> None
      | Some v \<Rightarrow>
          (case families of
             None \<Rightarrow> Some v
           | Some fs \<Rightarrow> if fs \<noteq> [] \<and> src_family r \<notin> set fs then None else Some v))"

fun aggregate_loop ::
  "string list option \<Rightarrow> counts \<times> int \<times> int \<Rightarrow> bin_row list list \<Rightarrow> error + (counts \<times> int \<times> int)" where
  "aggregate_loop families st [] = Inr st"
| "aggregate_loop families (counts, total_seen, total_kept) (b # bs) =
     (let n = int (length b);
          total_seen' = total_seen + n;
          kept = List.map_filter (batch_mask families) b
      in if kept = [] then aggregate_loop families (counts, total_seen', total_kept) bs
         else
           and_then (count_patterns kept counts) (\<lambda>counts'.
             aggregate_loop families (counts', total_seen', total_kept + int (length kept)) bs))"

definition aggregate_counts ::
  "bin_row list list \<Rightarrow> string list option \<Rightarrow> error + (counts \<times> int \<times> int)" where
  "aggregate_counts batches families = aggregate_loop families (replicate 8 (0, 0), 0, 0) batches"

text \<open>
  \<open>aggregate_counts\<close> of test/evaluate.py, over the batches as the scanner delivers them
  (the \<open>family\<close> filter is applied by the scanner). The state of the loop is
  \<open>(counts_global, counts_by_family, n_pos, n_neg)\<close>. \<open>np.unique\<close> lists the families
  of the batch once each; every family updates its own matrix.
\<close>

fun family_loop ::
  "(string \<times> int8 \<times> int8 \<times> int8 \<times> int8) list \<Rightarrow> (string \<rightharpoonup> counts) \<Rightarrow> string list
     \<Rightarrow> error + (string \<rightharpoonup> counts)" where
  "family_loop kept cbf [] = Inr cbf"
| "family_loop kept cbf (f # ufam) =
     (let rows_f = filter (\<lambda>r. fst r = f) kept in
      if rows_f = [] then family_loop kept cbf ufam
      else
        let arr = (case cbf f of None \<Rightarrow> replicate 8 (0, 0) | Some a \<Rightarrow> a) in
        and_then (count_patterns rows_f arr) (\<lambda>arr'. family_loop kept (cbf(f \<mapsto> arr')) ufam))"

fun aggregate_loop_eval ::
  "bool \<Rightarrow> counts \<times> (string \<rightharpoonup> counts) \<times> int \<times> int \<Rightarrow> bin_row list list
     \<Rightarrow> error + (counts \<times> (string \<rightharpoonup> counts) \<times> int \<times> int)" where
  "aggregate_loop_eval by_family st [] = Inr st"
| "aggregate_loop_eval by_family (counts_global, cbf, n_pos, n_neg) (b # bs) =
     (let kept = List.map_filter finite_row b in
      if kept = [] then aggregate_loop_eval by_family (counts_global, cbf, n_pos, n_neg) bs
      else
        and_then (count_patterns kept counts_global) (\<lambda>counts_global'.
        and_then (if by_family then family_loop kept cbf (remdups (map fst kept)) else Inr cbf) (\<lambda>cbf'.
          let n_pos' = n_pos + int (length (filter (\<lambda>r. fst (snd r) = 1) kept));
              n_neg' = n_neg + int (length (filter (\<lambda>r. fst (snd r) = 0) kept))
          in aggregate_loop_eval by_family (counts_global', cbf', n_pos', n_neg') bs)))"

definition aggregate_counts_eval ::
  "bin_row list list \<Rightarrow> bool \<Rightarrow> error + (counts \<times> (string \<rightharpoonup> counts) \<times> int \<times> int)" where
  "aggregate_counts_eval batches by_family =
     aggregate_loop_eval by_family (replicate 8 (0, 0), Map.empty, 0, 0) batches"

section \<open>Weight learning (weight/find_weights.py, weight_finding/train_weights.py)\<close>

text \<open>\<open>build_weighted_design\<close>: the rows \<open>X\<close>, their labels \<open>y\<close> and their sample
  weights \<open>w\<close>. Reading \<open>counts[p, 0]\<close> for \<open>p < 8\<close> raises on a matrix with fewer rows.\<close>

definition pattern_bits :: "nat \<Rightarrow> real list" where
  "pattern_bits p =
     [real ((drop_bit 2 p) AND 1), real ((drop_bit 1 p) AND 1), real ((drop_bit 0 p) AND 1)]"

fun design_loop ::
  "counts \<Rightarrow> real list list \<times> int list \<times> real list \<Rightarrow> nat list
     \<Rightarrow> error + (real list list \<times> int list \<times> real list)" where
  "design_loop counts acc [] = Inr acc"
| "design_loop counts (X_rows, y_rows, w_rows) (p # ps) =
     (if p < length counts then
        let c0 = fst (counts ! p);
            c1 = snd (counts ! p);
            acc0 = (if c0 > 0
                    then (X_rows @ [pattern_bits p], y_rows @ [0], w_rows @ [real_of_int c0])
                    else (X_rows, y_rows, w_rows));
            acc1 = (if c1 > 0
                    then (case acc0 of (X0, y0, w0) \<Rightarrow>
                            (X0 @ [pattern_bits p], y0 @ [1], w0 @ [real_of_int c1]))
                    else acc0)
        in design_loop counts acc1 ps
      else Inl IndexError)"

definition build_weighted_design :: "counts \<Rightarrow> error + (real list list \<times> int list \<times> real list)" where
  "build_weighted_design counts =
     and_then (design_loop counts ([], [], []) [0..<8]) (\<lambda>(X_rows, y_rows, w_rows).
       if X_rows = [] then Inl RuntimeError else Inr (X_rows, y_rows, w_rows))"

text \<open>
  \<open>fit_weights_aggregated\<close>. The fit is scikit-learn's \<open>LogisticRegression\<close>, which is
  not part of the repository: \<open>lr_fit\<close> stands for the configured solver and gives
  \<open>(coef_[0], classes_, n_iter_)\<close> or raises. The code after the fit clips the
  coefficients and normalizes them.
\<close>

type_synonym lr_solver =
  "real list list \<Rightarrow> int list \<Rightarrow> real list \<Rightarrow> error + (real list \<times> int list \<times> int)"

definition fit_weights_aggregated ::
  "lr_solver \<Rightarrow> real list list \<Rightarrow> int list \<Rightarrow> real list \<Rightarrow> error + (real list \<times> int list \<times> int)" where
  "fit_weights_aggregated lr_fit X y w =
     and_then (lr_fit X y w) (\<lambda>(clf_coef, classes, n_iter).
       let coef = map (\<lambda>c. max c 0) clf_coef;
           s = sum_list coef;
           weights = (if s \<le> 0 then map (\<lambda>c. 1 / real (length coef)) coef
                      else map (\<lambda>c. c / s) coef)
       in Inr (weights, classes, n_iter))"

text \<open>Lines 159 to 165 of \<open>main\<close> in weight/find_weights.py, from the histogram on.\<close>

definition fit_weights :: "lr_solver \<Rightarrow> counts \<Rightarrow> error + (real list \<times> int list \<times> int)" where
  "fit_weights lr_fit counts =
     and_then (build_weighted_design counts) (\<lambda>(X_small, y_small, w_small).
       fit_weights_aggregated lr_fit X_small y_small w_small)"

text \<open>
  \<open>best_threshold_for_scores\<close> and \<open>fit_weights_and_threshold\<close> of train_weights.py;
  \<open>f1_score\<close> is scikit-learn's, a parameter too, and the solver here gives \<open>coef_[0]\<close>.
\<close>

fun threshold_grid_loop ::
  "(int list \<Rightarrow> int list \<Rightarrow> real) \<Rightarrow> real list \<Rightarrow> int list \<Rightarrow> real \<times> real \<Rightarrow> real list \<Rightarrow> real \<times> real" where
  "threshold_grid_loop f1_score s y best [] = best"
| "threshold_grid_loop f1_score s y (best_f1, best_thr) (t # ts) =
     (let f1' = f1_score y (map (\<lambda>v. if v \<ge> t then 1 else 0) s) in
      if f1' > best_f1 then threshold_grid_loop f1_score s y (f1', t) ts
      else threshold_grid_loop f1_score s y (best_f1, best_thr) ts)"

definition best_threshold_for_scores ::
  "(int list \<Rightarrow> int list \<Rightarrow> real) \<Rightarrow> real list \<Rightarrow> int list \<Rightarrow> nat \<Rightarrow> real \<times> real" where
  "best_threshold_for_scores f1_score scores y grid =
     (let s = map (\<lambda>v. min (max v 0) 1) scores;
          linspace = map (\<lambda>k. real k / real (grid - 1)) [0..<grid]
      in case threshold_grid_loop f1_score s y (-1, 0.5) linspace of
           (best_f1, best_thr) \<Rightarrow> (best_thr, best_f1))"

definition fit_weights_and_threshold ::
  "(real list list \<Rightarrow> int list \<Rightarrow> error + real list) \<Rightarrow> (int list \<Rightarrow> int list \<Rightarrow> real)
     \<Rightarrow> real list list \<Rightarrow> int list \<Rightarrow> error + (real list \<times> real \<times> real)" where
  "fit_weights_and_threshold lr_fit f1_score X y =
     and_then (lr_fit X y) (\<lambda>clf_coef.
       let coef = map (\<lambda>c. max c 0) clf_coef;
           weights = (if sum_list coef > 0 then map (\<lambda>c. c / sum_list coef) coef
                      else map (\<lambda>c. 1 / real (length coef)) coef);
           wscore = map (\<lambda>row. sum_list (map2 (\<lambda>v wt. v * wt) row weights)) X
       in case best_threshold_for_scores f1_score wscore y 1001 of
            (thr_w, best_f1_w) \<Rightarrow> Inr (weights, thr_w, best_f1_w))"

section \<open>Binarization (train/weight/preprocess.py, find_threshold.py, train_weights.py)\<close>













text \<open>\<open>s = W_SM * b_sm + W_CR * b_cr + W_PH * b_ph\<close> on the \<open>int8\<close> flags.\<close>

definition weighted_score :: "int8 \<Rightarrow> int8 \<Rightarrow> int8 \<Rightarrow> real" where
  "weighted_score b_sm b_cr b_ph =
     W_SM * real_of_int (sint b_sm) + W_CR * real_of_int (sint b_cr) + W_PH * real_of_int (sint b_ph)"








section \<open>Specification-level notions used in the statements\<close>

text \<open>What a row of \<open>eval_thresholds_from_counts\<close> holds, in terms of the two columns
  \<open>pos\<close> and \<open>neg\<close> of the histogram and the scores \<open>s\<close>.\<close>

definition row_spec :: "real list \<Rightarrow> int list \<Rightarrow> int list \<Rightarrow> real \<Rightarrow> metrics_row \<Rightarrow> bool" where
  "row_spec s pos neg thr r \<longleftrightarrow>
     threshold r = thr
     \<and> tp r = sum_list (map fst (filter snd (zip pos (map (\<lambda>v. v \<ge> thr) s))))
     \<and> fp r = sum_list (map fst (filter snd (zip neg (map (\<lambda>v. v \<ge> thr) s))))
     \<and> fn r = sum_list pos - tp r \<and> tn r = sum_list neg - fp r
     \<and> sample_pos r = sum_list pos \<and> sample_neg r = sum_list neg
     \<and> tpr r = (if sum_list pos \<noteq> 0 then real_of_int (tp r) / real_of_int (sum_list pos) else 0)
     \<and> fpr r = (if sum_list neg \<noteq> 0 then real_of_int (fp r) / real_of_int (sum_list neg) else 0)
     \<and> precision r = (if tp r + fp r \<noteq> 0 then real_of_int (tp r) / real_of_int (tp r + fp r) else 0)
     \<and> specificity r = (if sum_list neg \<noteq> 0 then real_of_int (tn r) / real_of_int (sum_list neg) else 0)
     \<and> accuracy r = (if sum_list pos + sum_list neg \<noteq> 0
                     then real_of_int (tp r + tn r) / real_of_int (sum_list pos + sum_list neg) else 0)
     \<and> f1 r = (if 2 * tp r + fp r + fn r \<noteq> 0
               then real_of_int (2 * tp r) / real_of_int (2 * tp r + fp r + fn r) else 0)
     \<and> youdenJ r = tpr r - fpr r"

text \<open>The masked rows of a stream, the label and the pattern of a masked row, the 8x2
  histogram of a list of masked rows, and the elementwise sum of two histograms.\<close>

type_synonym kept_row = "string \<times> int8 \<times> int8 \<times> int8 \<times> int8"

definition lab_of :: "kept_row \<Rightarrow> int8" where
  "lab_of v = fst (snd v)"

definition pat_of :: "kept_row \<Rightarrow> int8" where
  "pat_of v = (case v of (f, y, sm, cr, ph) \<Rightarrow> pattern sm cr ph)"

definition hist_of :: "kept_row list \<Rightarrow> counts" where
  "hist_of rows =
     map (\<lambda>p. (int (length (filter (\<lambda>v. lab_of v = 0 \<and> unat (pat_of v) = p) rows)),
               int (length (filter (\<lambda>v. lab_of v = 1 \<and> unat (pat_of v) = p) rows))))
         [0..<8]"

definition hist_add :: "counts \<Rightarrow> counts \<Rightarrow> counts" where
  "hist_add a b = map2 (\<lambda>c d. (fst c + fst d, snd c + snd d)) a b"

text \<open>A masked row that makes the update of the count matrix raise: it is counted
  (its label is 0 or 1) and its pattern is not below 8.\<close>

definition bad_row :: "kept_row \<Rightarrow> bool" where
  "bad_row v = ((lab_of v = 0 \<or> lab_of v = 1) \<and> \<not> unat (pat_of v) < 8)"

definition kept_rows :: "string list option \<Rightarrow> bin_row list list \<Rightarrow> kept_row list" where
  "kept_rows families batches = concat (map (List.map_filter (batch_mask families)) batches)"

definition kept_rows_eval :: "bin_row list list \<Rightarrow> kept_row list" where
  "kept_rows_eval batches = concat (map (List.map_filter finite_row) batches)"

definition binary_flags :: "kept_row \<Rightarrow> bool" where
  "binary_flags v =
     (case v of (f, y, sm, cr, ph) \<Rightarrow> (sm = 0 \<or> sm = 1) \<and> (cr = 0 \<or> cr = 1) \<and> (ph = 0 \<or> ph = 1))"

definition binary_label :: "kept_row \<Rightarrow> bool" where
  "binary_label v = (lab_of v = 0 \<or> lab_of v = 1)"

text \<open>The histogram of the specification's scenario: 100 records of label 0 with
  pattern 0 and 50 records of label 1 with pattern 7.\<close>

definition scenario_counts :: counts where
  "scenario_counts = [(100, 0), (0, 0), (0, 0), (0, 0), (0, 0), (0, 0), (0, 0), (0, 50)]"

text \<open>What \<open>metrics_at_threshold\<close> returns on a sample of labels \<open>y\<close> and scores \<open>x\<close>.\<close>

definition sample_spec :: "int8 list \<Rightarrow> real list \<Rightarrow> real \<Rightarrow> metrics \<Rightarrow> bool" where
  "sample_spec y x thr m \<longleftrightarrow>
     threshold m = thr
     \<and> tp m = int (length (filter (\<lambda>lv. snd lv \<ge> thr \<and> fst lv = 1) (zip y x)))
     \<and> fp m = int (length (filter (\<lambda>lv. snd lv \<ge> thr \<and> fst lv = 0) (zip y x)))
     \<and> tn m = int (length (filter (\<lambda>lv. \<not> snd lv \<ge> thr \<and> fst lv = 0) (zip y x)))
     \<and> fn m = int (length (filter (\<lambda>lv. \<not> snd lv \<ge> thr \<and> fst lv = 1) (zip y x)))
     \<and> tpr m = (if tp m + fn m \<noteq> 0 then real_of_int (tp m) / real_of_int (tp m + fn m) else 0)
     \<and> fpr m = (if tn m + fp m \<noteq> 0 then real_of_int (fp m) / real_of_int (tn m + fp m) else 0)
     \<and> precision m = (if tp m + fp m \<noteq> 0 then real_of_int (tp m) / real_of_int (tp m + fp m) else 0)"

text \<open>Every per-family matrix has 8 rows.\<close>

definition cbf_ok :: "(string \<rightharpoonup> counts) \<Rightarrow> bool" where
  "cbf_ok cbf = (\<forall>f a. cbf f = Some a \<longrightarrow> length a = 8)"

text \<open>A row with a cell that is missing or not finite.\<close>

definition has_missing :: "bin_row \<Rightarrow> bool" where
  "has_missing r =
     (label_same_family r = None \<or> bin_string_minhash r = None
      \<or> bin_code_regions r = None \<or> bin_program_header r = None)"

text \<open>Two small streams of batches: five rows, one of them with a missing flag.\<close>

definition example_A :: "bin_row list list" where
  "example_A =
     [[\<lparr> src_family = ''busybox'', label_same_family = Some 1, bin_string_minhash = Some 1,
          bin_code_regions = Some 1, bin_program_header = Some 1 \<rparr>,
       \<lparr> src_family = ''curl'', label_same_family = Some 0, bin_string_minhash = None,
          bin_code_regions = Some 1, bin_program_header = Some 0 \<rparr>],
      [\<lparr> src_family = ''curl'', label_same_family = Some 0, bin_string_minhash = Some 0,
          bin_code_regions = Some 0, bin_program_header = Some 0 \<rparr>]]"

definition example_B :: "bin_row list list" where
  "example_B =
     [[\<lparr> src_family = ''busybox'', label_same_family = Some 1, bin_string_minhash = Some 1,
          bin_code_regions = Some 0, bin_program_header = Some 0 \<rparr>,
       \<lparr> src_family = ''busybox'', label_same_family = Some 1, bin_string_minhash = Some 1,
          bin_code_regions = Some 1, bin_program_header = Some 1 \<rparr>]]"

text \<open>The score of one masked row, computed from its own flags as
  \<open>scan_weighted_scores\<close> does.\<close>

definition score_of :: "kept_row \<Rightarrow> real" where
  "score_of v = (case v of (f, y, sm, cr, ph) \<Rightarrow> weighted_score sm cr ph)"

text \<open>The rows of the weighted design that the patterns \<open>ps\<close> contribute: one for each
  positive cell, as \<open>(bits, label, sample weight)\<close>.\<close>

definition design_rows :: "counts \<Rightarrow> nat list \<Rightarrow> (real list \<times> int \<times> real) list" where
  "design_rows counts ps =
     concat (map (\<lambda>p. (if fst (counts ! p) > 0 then [(pattern_bits p, 0, real_of_int (fst (counts ! p)))] else [])
                      @ (if snd (counts ! p) > 0 then [(pattern_bits p, 1, real_of_int (snd (counts ! p)))] else []))
                 ps)"

text \<open>A solver that returns the coefficients \<open>[2, -1, 2]\<close> whatever the data, and one that
  returns \<open>[-1, 0, -3]\<close>.\<close>

definition example_solver :: lr_solver where
  "example_solver X y w = Inr ([2, -1, 2], [0, 1], 7)"

definition example_solver_neg :: lr_solver where
  "example_solver_neg X y w = Inr ([-1, 0, -3], [0, 1], 7)"

text \<open>What \<open>pick_thresholds\<close> leaves in an entry of \<open>rec_thrs\<close>, given the ROC arrays
  without the infinite threshold.\<close>

definition recall_entry_ok ::
  "real list \<Rightarrow> real list \<Rightarrow> real list \<Rightarrow> int8 list \<Rightarrow> real list \<Rightarrow> real \<times> recall_outcome \<Rightarrow> bool" where
  "recall_entry_ok fpr_a tpr_a thr_a y x entry =
     (if \<exists>i < length thr_a. tpr_a ! i \<ge> fst entry
      then \<exists>sub m. sub < length thr_a \<and> tpr_a ! sub \<ge> fst entry
             \<and> (\<forall>i < length thr_a. tpr_a ! i \<ge> fst entry \<longrightarrow> fpr_a ! sub \<le> fpr_a ! i)
             \<and> metrics_at_threshold y x (thr_a ! sub) = Inr m
             \<and> snd entry = Reachable m
      else snd entry = Unreachable)"

text \<open>The ROC arrays agree with the sample: at each threshold they hold the rates that
  \<open>metrics_at_threshold\<close> computes there.\<close>

definition roc_consistent :: "real list \<Rightarrow> real list \<Rightarrow> real list \<Rightarrow> int8 list \<Rightarrow> real list \<Rightarrow> bool" where
  "roc_consistent fpr_a tpr_a thr_a y x =
     (\<forall>i < length thr_a. \<forall>mi. metrics_at_threshold y x (thr_a ! i) = Inr mi \<longrightarrow>
        tpr mi = tpr_a ! i \<and> fpr mi = fpr_a ! i)"

text \<open>Two samples with the ROC arrays of each: one with two positives and two negatives,
  one with no positive.\<close>

definition sample_y :: "int8 list" where "sample_y = [1, 1, 0, 0]"
definition sample_x :: "real list" where "sample_x = [0.9, 0.4, 0.6, 0.1]"
definition sample_roc :: "real list \<times> real list \<times> real option list" where
  "sample_roc = ([0, 0, 0.5, 0.5, 1], [0, 0.5, 0.5, 1, 1], [None, Some 0.9, Some 0.6, Some 0.4, Some 0.1])"

definition negatives_y :: "int8 list" where "negatives_y = [0, 0]"
definition negatives_x :: "real list" where "negatives_x = [0.2, 0.7]"
definition negatives_roc :: "real list \<times> real list \<times> real option list" where
  "negatives_roc = ([0, 0.5, 1], [0, 0, 0], [None, Some 0.7, Some 0.2])"

text \<open>A histogram with a single record: label 0, pattern 7.\<close>

definition only_negative_counts :: counts where
  "only_negative_counts = [(0, 0), (0, 0), (0, 0), (0, 0), (0, 0), (0, 0), (0, 0), (1, 0)]"






text \<open>
  A solver that makes the check of scikit-learn's \<open>LogisticRegression.fit\<close> on the classes
  of the labels: with fewer than two classes it raises \<open>ValueError\<close>; otherwise it returns
  some coefficients. And a histogram with label-0 cells only.
\<close>

definition single_class_solver :: lr_solver where
  "single_class_solver X y w =
     (if length (remdups y) < 2 then Inl ValueError else Inr ([1, 1, 1], remdups y, 1))"

definition only_label0 :: counts where
  "only_label0 = [(100, 0), (0, 0), (0, 0), (0, 0), (0, 0), (0, 0), (0, 0), (3, 0)]"

section \<open>Helper lemmas: loops and sums\<close>

lemma for_each_Inr:
  "(\<And>x. x \<in> set xs \<Longrightarrow> \<exists>r. f x = Inr r \<and> P x r) \<Longrightarrow>
   \<exists>rs. for_each f xs = Inr rs \<and> list_all2 P xs rs"
proof (induction xs)
  case Nil
  then show ?case by simp
next
  case (Cons x xs)
  then obtain r where r: "f x = Inr r" "P x r" by auto
  from Cons obtain rs where rs: "for_each f xs = Inr rs" "list_all2 P xs rs" by auto
  show ?case using r rs by (simp add: and_then_def)
qed

lemma sum_list_masked_le:
  "\<forall>v \<in> set a. (0::int) \<le> v \<Longrightarrow> sum_list (map fst (filter snd (zip a m))) \<le> sum_list a"
proof (induction a arbitrary: m)
  case Nil
  then show ?case by simp
next
  case (Cons v a)
  show ?case
  proof (cases m)
    case Nil
    then show ?thesis using Cons.prems by (simp add: sum_list_nonneg)
  next
    case (Cons b m')
    then show ?thesis using Cons.IH [of m'] Cons.prems by auto
  qed
qed

lemma sum_list_masked_nonneg:
  "\<forall>v \<in> set a. (0::int) \<le> v \<Longrightarrow> 0 \<le> sum_list (map fst (filter snd (zip a m)))"
  by (rule sum_list_nonneg) (auto dest: set_zip_leftD)

section \<open>The metrics engine\<close>

lemma eval_threshold_Inr:
  assumes "length pos = length s" "length neg = length s"
  shows "\<exists>r. eval_threshold s pos neg (sum_list pos) (sum_list neg) thr = Inr r \<and> row_spec s pos neg thr r"
  using assms unfolding row_spec_def
  by (simp add: eval_threshold_def mask_select_def and_then_def truediv_def Let_def)

lemma eval_thresholds_Inr:
  assumes "length counts = 8"
  shows "\<exists>rows. eval_thresholds_from_counts counts thresholds = Inr rows
           \<and> list_all2 (row_spec SCORES_BY_PATTERN (map snd counts) (map fst counts)) thresholds rows"
proof -
  have len: "length SCORES_BY_PATTERN = 8" by (simp add: SCORES_BY_PATTERN_def)
  show ?thesis
    unfolding eval_thresholds_from_counts_def Let_def
    by (rule for_each_Inr) (simp add: eval_threshold_Inr assms len)
qed

lemma eval_scenario:
  "eval_thresholds_from_counts scenario_counts [0.5] =
     Inr [\<lparr> threshold = 0.5, tp = 50, fp = 0, tn = 100, fn = 0, tpr = 1, fpr = 0, precision = 1,
            specificity = 1, accuracy = 1, f1 = 1, youdenJ = 1, sample_pos = 50, sample_neg = 100 \<rparr>]"
  by (simp add: scenario_counts_def eval_thresholds_from_counts_def eval_threshold_def
      SCORES_BY_PATTERN_def W_SM_def W_CR_def W_PH_def mask_select_def and_then_def truediv_def Let_def)

text \<open>
  C10. For every 8x2 histogram of non-negative counts and every list of thresholds, the
  rows are produced, and in each row \<open>tp + fn = sample_pos\<close> and \<open>fp + tn = sample_neg\<close>,
  where \<open>sample_pos\<close> and \<open>sample_neg\<close> are the sums of the label-1 and label-0 columns;
  the four counts are non-negative and add up to the histogram's total.
\<close>

theorem confusion_counts_partition:
  assumes "length counts = 8" and "\<forall>c \<in> set counts. 0 \<le> fst c \<and> 0 \<le> snd c"
  shows "\<exists>rows. eval_thresholds_from_counts counts thresholds = Inr rows
           \<and> length rows = length thresholds
           \<and> (\<forall>r \<in> set rows.
                 sample_pos r = sum_list (map snd counts) \<and> sample_neg r = sum_list (map fst counts)
               \<and> tp r + fn r = sample_pos r \<and> fp r + tn r = sample_neg r
               \<and> 0 \<le> tp r \<and> 0 \<le> fp r \<and> 0 \<le> tn r \<and> 0 \<le> fn r
               \<and> tp r + fp r + tn r + fn r = sum_list (map fst counts) + sum_list (map snd counts))"
proof -
  from eval_thresholds_Inr [OF assms(1), of thresholds] obtain rows where
    ev: "eval_thresholds_from_counts counts thresholds = Inr rows" and
    spec: "list_all2 (row_spec SCORES_BY_PATTERN (map snd counts) (map fst counts)) thresholds rows"
    by blast
  have nn: "\<forall>v \<in> set (map snd counts). 0 \<le> v" "\<forall>v \<in> set (map fst counts). 0 \<le> v"
    using assms(2) by auto
  have "\<And>r. r \<in> set rows \<Longrightarrow>
           sample_pos r = sum_list (map snd counts) \<and> sample_neg r = sum_list (map fst counts)
         \<and> tp r + fn r = sample_pos r \<and> fp r + tn r = sample_neg r
         \<and> 0 \<le> tp r \<and> 0 \<le> fp r \<and> 0 \<le> tn r \<and> 0 \<le> fn r
         \<and> tp r + fp r + tn r + fn r = sum_list (map fst counts) + sum_list (map snd counts)"
  proof -
    fix r assume "r \<in> set rows"
    then obtain thr where rs: "row_spec SCORES_BY_PATTERN (map snd counts) (map fst counts) thr r"
      using spec by (auto simp: list_all2_conv_all_nth in_set_conv_nth)
    let ?m = "map (\<lambda>v. v \<ge> thr) SCORES_BY_PATTERN"
    have "0 \<le> tp r" "tp r \<le> sum_list (map snd counts)"
      using rs sum_list_masked_nonneg [OF nn(1), of ?m] sum_list_masked_le [OF nn(1), of ?m]
      by (simp_all add: row_spec_def)
    moreover have "0 \<le> fp r" "fp r \<le> sum_list (map fst counts)"
      using rs sum_list_masked_nonneg [OF nn(2), of ?m] sum_list_masked_le [OF nn(2), of ?m]
      by (simp_all add: row_spec_def)
    moreover have "fn r = sum_list (map snd counts) - tp r" "tn r = sum_list (map fst counts) - fp r"
      "sample_pos r = sum_list (map snd counts)" "sample_neg r = sum_list (map fst counts)"
      using rs by (simp_all add: row_spec_def)
    ultimately show "sample_pos r = sum_list (map snd counts) \<and> sample_neg r = sum_list (map fst counts)
         \<and> tp r + fn r = sample_pos r \<and> fp r + tn r = sample_neg r
         \<and> 0 \<le> tp r \<and> 0 \<le> fp r \<and> 0 \<le> tn r \<and> 0 \<le> fn r
         \<and> tp r + fp r + tn r + fn r = sum_list (map fst counts) + sum_list (map snd counts)"
      by simp
  qed
  moreover have "length rows = length thresholds"
    using spec by (simp add: list_all2_lengthD)
  ultimately show ?thesis using ev by blast
qed

theorem confusion_counts_partition_witness:
  "length scenario_counts = 8
   \<and> list_all (\<lambda>c. 0 \<le> fst c \<and> 0 \<le> snd c) scenario_counts
   \<and> (\<exists>rows. eval_thresholds_from_counts scenario_counts [0.5] = Inr rows
         \<and> length rows = 1
         \<and> list_all (\<lambda>r. sample_pos r = 50 \<and> sample_neg r = 100
                 \<and> tp r + fn r = sample_pos r \<and> fp r + tn r = sample_neg r
                 \<and> 0 \<le> tp r \<and> 0 \<le> fp r \<and> 0 \<le> tn r \<and> 0 \<le> fn r
                 \<and> tp r + fp r + tn r + fn r = 150) rows)"
  using confusion_counts_partition [of scenario_counts "[0.5]"]
  by (simp add: scenario_counts_def list_all_iff)

lemma count_true_map2:
  "length y = length x \<Longrightarrow>
   count_true (map2 (\<and>) (map f x) (map g y)) = int (length (filter (\<lambda>lv. f (snd lv) \<and> g (fst lv)) (zip y x)))"
  by (induction y x rule: list_induct2) (simp_all add: count_true_def)

lemma metrics_at_threshold_Inr:
  assumes "length y = length x"
  shows "\<exists>m. metrics_at_threshold y x thr = Inr m \<and> sample_spec y x thr m"
proof -
  have b: "\<And>f g. broadcast_and (map f (map (\<lambda>v. v \<ge> thr) x)) (map g y)
             = Inr (map2 (\<and>) (map (\<lambda>v. f (v \<ge> thr)) x) (map g y))"
    using assms by (simp add: broadcast_and_def comp_def)
  show ?thesis
    unfolding metrics_at_threshold_def Let_def b sample_spec_def
    by (simp add: and_then_def truediv_def count_true_map2 [OF assms])
qed

text \<open>
  C8. The metric computation never raises and each guarded metric is 0 when its
  denominator is 0: for every 8-row histogram and every list of thresholds
  \<open>eval_thresholds_from_counts\<close> returns its rows, with tpr, fpr, precision, specificity,
  accuracy and f1 equal to 0 whenever \<open>tp + fn\<close>, \<open>fp + tn\<close>, \<open>tp + fp\<close>, \<open>tn + fp\<close>,
  \<open>tp + fp + tn + fn\<close>, \<open>2 tp + fp + fn\<close> is 0; and for every sample of labels and
  scores of one length \<open>metrics_at_threshold\<close> returns, with the same for its tpr, fpr and
  precision. Division is \<open>truediv\<close>, which raises on a zero divisor.
\<close>

theorem degenerate_metrics_total:
  "(length counts = 8 \<longrightarrow>
      (\<exists>rows. eval_thresholds_from_counts counts thresholds = Inr rows
         \<and> length rows = length thresholds
         \<and> (\<forall>r \<in> set rows.
               (tp r + fn r = 0 \<longrightarrow> tpr r = 0) \<and> (fp r + tn r = 0 \<longrightarrow> fpr r = 0)
             \<and> (tp r + fp r = 0 \<longrightarrow> precision r = 0) \<and> (tn r + fp r = 0 \<longrightarrow> specificity r = 0)
             \<and> (tp r + fp r + tn r + fn r = 0 \<longrightarrow> accuracy r = 0)
             \<and> (2 * tp r + fp r + fn r = 0 \<longrightarrow> f1 r = 0))))
   \<and> (length y = length x \<longrightarrow>
      (\<exists>m. metrics_at_threshold y x thr = Inr m
         \<and> (tp m + fn m = 0 \<longrightarrow> tpr m = 0) \<and> (fp m + tn m = 0 \<longrightarrow> fpr m = 0)
         \<and> (tp m + fp m = 0 \<longrightarrow> precision m = 0)))"
proof (intro conjI impI)
  assume len: "length counts = 8"
  from eval_thresholds_Inr [OF len, of thresholds] obtain rows where
    ev: "eval_thresholds_from_counts counts thresholds = Inr rows" and
    spec: "list_all2 (row_spec SCORES_BY_PATTERN (map snd counts) (map fst counts)) thresholds rows"
    by blast
  have "\<And>r. r \<in> set rows \<Longrightarrow>
               (tp r + fn r = 0 \<longrightarrow> tpr r = 0) \<and> (fp r + tn r = 0 \<longrightarrow> fpr r = 0)
             \<and> (tp r + fp r = 0 \<longrightarrow> precision r = 0) \<and> (tn r + fp r = 0 \<longrightarrow> specificity r = 0)
             \<and> (tp r + fp r + tn r + fn r = 0 \<longrightarrow> accuracy r = 0)
             \<and> (2 * tp r + fp r + fn r = 0 \<longrightarrow> f1 r = 0)"
  proof -
    fix r assume "r \<in> set rows"
    then obtain t where rs: "row_spec SCORES_BY_PATTERN (map snd counts) (map fst counts) t r"
      using spec by (auto simp: list_all2_conv_all_nth in_set_conv_nth)
    have e: "tp r + fn r = sum_list (map snd counts)" "fp r + tn r = sum_list (map fst counts)"
      "tn r + fp r = sum_list (map fst counts)"
      "tp r + fp r + tn r + fn r = sum_list (map snd counts) + sum_list (map fst counts)"
      using rs by (simp_all add: row_spec_def)
    show "(tp r + fn r = 0 \<longrightarrow> tpr r = 0) \<and> (fp r + tn r = 0 \<longrightarrow> fpr r = 0)
             \<and> (tp r + fp r = 0 \<longrightarrow> precision r = 0) \<and> (tn r + fp r = 0 \<longrightarrow> specificity r = 0)
             \<and> (tp r + fp r + tn r + fn r = 0 \<longrightarrow> accuracy r = 0)
             \<and> (2 * tp r + fp r + fn r = 0 \<longrightarrow> f1 r = 0)"
      unfolding e using rs by (simp add: row_spec_def)
  qed
  moreover have "length rows = length thresholds"
    using spec by (simp add: list_all2_lengthD)
  ultimately show "\<exists>rows. eval_thresholds_from_counts counts thresholds = Inr rows
         \<and> length rows = length thresholds
         \<and> (\<forall>r \<in> set rows.
               (tp r + fn r = 0 \<longrightarrow> tpr r = 0) \<and> (fp r + tn r = 0 \<longrightarrow> fpr r = 0)
             \<and> (tp r + fp r = 0 \<longrightarrow> precision r = 0) \<and> (tn r + fp r = 0 \<longrightarrow> specificity r = 0)
             \<and> (tp r + fp r + tn r + fn r = 0 \<longrightarrow> accuracy r = 0)
             \<and> (2 * tp r + fp r + fn r = 0 \<longrightarrow> f1 r = 0))"
    using ev by blast
next
  assume len: "length y = length x"
  from metrics_at_threshold_Inr [OF len, of thr] obtain m where
    m: "metrics_at_threshold y x thr = Inr m" "sample_spec y x thr m" by blast
  have "(tp m + fn m = 0 \<longrightarrow> tpr m = 0) \<and> (fp m + tn m = 0 \<longrightarrow> fpr m = 0)
         \<and> (tp m + fp m = 0 \<longrightarrow> precision m = 0)"
    using m(2) by (simp add: sample_spec_def add.commute)
  then show "\<exists>m. metrics_at_threshold y x thr = Inr m
         \<and> (tp m + fn m = 0 \<longrightarrow> tpr m = 0) \<and> (fp m + tn m = 0 \<longrightarrow> fpr m = 0)
         \<and> (tp m + fp m = 0 \<longrightarrow> precision m = 0)"
    using m(1) by blast
qed

theorem degenerate_metrics_total_witness:
  "eval_thresholds_from_counts (replicate 8 (0, 0)) [0.5] =
     Inr [\<lparr> threshold = 0.5, tp = 0, fp = 0, tn = 0, fn = 0, tpr = 0, fpr = 0, precision = 0,
            specificity = 0, accuracy = 0, f1 = 0, youdenJ = 0, sample_pos = 0, sample_neg = 0 \<rparr>]
   \<and> metrics_at_threshold [] [] 0.5 =
     Inr \<lparr> threshold = 0.5, tp = 0, fp = 0, tn = 0, fn = 0, tpr = 0, fpr = 0, precision = 0 \<rparr>"
  using degenerate_metrics_total [of "replicate 8 (0, 0)" "[0.5]" "[]" "[]" "0.5"]
  by (simp add: eval_thresholds_from_counts_def eval_threshold_def
      SCORES_BY_PATTERN_def W_SM_def W_CR_def W_PH_def mask_select_def and_then_def Let_def
      metrics_at_threshold_def broadcast_and_def count_true_def numeral_eq_Suc)

section \<open>The histogram aggregator\<close>

lemma fold_max_ge: "n \<le> fold (\<lambda>v n. max n (Suc (unat v))) (x :: int8 list) n"
proof (induction x arbitrary: n)
  case Nil
  then show ?case by simp
next
  case (Cons a x)
  have "n \<le> max n (Suc (unat a))" by simp
  also have "\<dots> \<le> fold (\<lambda>v n. max n (Suc (unat v))) x (max n (Suc (unat a)))"
    by (rule Cons.IH)
  finally show ?case by simp
qed

lemma fold_max_small:
  "\<forall>v \<in> set x. unat v < m \<Longrightarrow> fold (\<lambda>v n. max n (Suc (unat v))) (x :: int8 list) m = m"
  by (induction x) (simp_all add: max_absorb1 Suc_leI)

lemma fold_max_big:
  "v \<in> set x \<Longrightarrow> Suc (unat v) \<le> fold (\<lambda>v n. max n (Suc (unat v))) (x :: int8 list) n"
proof (induction x arbitrary: n)
  case Nil
  then show ?case by simp
next
  case (Cons a x)
  show ?case
  proof (cases "v = a")
    case True
    have "Suc (unat a) \<le> max n (Suc (unat a))" by simp
    also have "\<dots> \<le> fold (\<lambda>v n. max n (Suc (unat v))) x (max n (Suc (unat a)))"
      by (rule fold_max_ge)
    finally show ?thesis using True by simp
  next
    case False
    then show ?thesis using Cons by simp
  qed
qed

lemma sint_neg_unat: "sint (v :: int8) < 0 \<Longrightarrow> \<not> unat v < 8"
proof
  assume a: "sint v < 0" and b: "unat v < 8"
  have "unat v = nat (uint v)" by (rule unat_eq_nat_uint)
  moreover have nn: "0 \<le> uint v" by simp
  ultimately have "uint v < 8" using b by linarith
  then have a2: "uint v < 2 ^ 7" by simp
  have a1: "- (2 ^ 7) \<le> uint v" by (rule order_trans [OF _ nn]) simp
  have "signed_take_bit 7 (uint v) = uint v"
    using a1 a2 by (rule signed_take_bit_int_eq_self)
  then have "sint v = uint v" by (simp add: sint_uint)
  then show False using a by simp
qed

lemma bincount_add_hist:
  assumes "length counts = 8"
  shows "and_then (bincount x 8) (add_hist counts lbl) =
     (if \<forall>v \<in> set x. unat v < 8
      then Inr (map2 (\<lambda>c k. let h = int (length (filter (\<lambda>v. unat v = k) x)) in
                              if lbl = 0 then (fst c + h, snd c) else (fst c, snd c + h))
                  counts [0..<8])
      else Inl ValueError)"
proof (cases "\<forall>v \<in> set x. unat v < 8")
  case True
  then have nonneg: "\<not> (\<exists>v \<in> set x. sint v < 0)" using sint_neg_unat by blast
  have len: "fold (\<lambda>v n. max n (Suc (unat v))) x 8 = 8" using True by (rule fold_max_small)
  have "map2 (\<lambda>c h. if lbl = 0 then (fst c + h, snd c) else (fst c, snd c + h)) counts
          (map (\<lambda>i. int (length (filter (\<lambda>v. unat v = i) x))) [0..<8])
        = map2 (\<lambda>c k. let h = int (length (filter (\<lambda>v. unat v = k) x)) in
                              if lbl = 0 then (fst c + h, snd c) else (fst c, snd c + h))
                  counts [0..<8]"
    by (simp add: zip_map2 Let_def case_prod_unfold)
  then show ?thesis using True nonneg len assms
    by (simp add: bincount_def add_hist_def and_then_def)
next
  case False
  then obtain v where v: "v \<in> set x" "\<not> unat v < 8" by blast
  show ?thesis
  proof (cases "\<exists>v \<in> set x. sint v < 0")
    case True
    then show ?thesis using False by (simp add: bincount_def and_then_def)
  next
    case nn: False
    have "Suc (unat v) \<le> fold (\<lambda>v n. max n (Suc (unat v))) x 8" using v(1) by (rule fold_max_big)
    then have "8 < fold (\<lambda>v n. max n (Suc (unat v))) x 8" using v(2) by simp
    then show ?thesis using False nn assms
      by (simp add: bincount_def add_hist_def and_then_def)
  qed
qed

lemma count_label_char:
  assumes "length counts = 8" "lbl = 0 \<or> lbl = 1"
  shows "count_label ypat counts lbl =
     (if \<forall>yp \<in> set ypat. fst yp = of_nat lbl \<longrightarrow> unat (snd yp) < 8
      then Inr (map2 (\<lambda>c k. let h = int (length (filter (\<lambda>yp. fst yp = of_nat lbl \<and> unat (snd yp) = k) ypat)) in
                              if lbl = 0 then (fst c + h, snd c) else (fst c, snd c + h))
                  counts [0..<8])
      else Inl ValueError)"
proof -
  let ?sel = "filter (\<lambda>yp. fst yp = of_nat lbl) ypat"
  have cnt: "\<And>k. length (filter (\<lambda>v. unat v = k) (map snd ?sel))
                 = length (filter (\<lambda>yp. fst yp = of_nat lbl \<and> unat (snd yp) = k) ypat)"
    by (simp add: filter_map comp_def conj_commute)
  show ?thesis
  proof (cases "?sel = []")
    case True
    then have none: "\<And>k. filter (\<lambda>yp. fst yp = of_nat lbl \<and> unat (snd yp) = k) ypat = []"
      by (auto simp: filter_empty_conv)
    have "\<forall>yp \<in> set ypat. fst yp = of_nat lbl \<longrightarrow> unat (snd yp) < 8"
      using True by (auto simp: filter_empty_conv)
    moreover have "map2 (\<lambda>c k. if lbl = 0 then (fst c + (0::int), snd c) else (fst c, snd c + (0::int))) counts [0..<8] = counts"
      using assms(1) by (simp add: list_eq_iff_nth_eq)
    ultimately show ?thesis using True
      by (simp add: count_label_def Let_def none)
  next
    case False
    then show ?thesis
      unfolding count_label_def Let_def
      by (force simp add: bincount_add_hist [OF assms(1)] cnt Let_def)
  qed
qed

lemma ypat_conv:
  "map (\<lambda>(f, y, sm, cr, ph). (y, pattern sm cr ph)) kept = map (\<lambda>v. (lab_of v, pat_of v)) kept"
  by (rule map_cong) (auto simp: lab_of_def pat_of_def)

lemma length_hist_of [simp]: "length (hist_of rows) = 8"
  by (simp add: hist_of_def)

lemma length_hist_add [simp]: "length (hist_add a b) = min (length a) (length b)"
  by (simp add: hist_add_def)

lemma count_patterns_char:
  assumes "length counts = 8"
  shows "count_patterns kept counts =
     (if \<exists>v \<in> set kept. bad_row v then Inl ValueError else Inr (hist_add counts (hist_of kept)))"
proof -
  let ?ypat = "map (\<lambda>v. (lab_of v, pat_of v)) kept"
  let ?h0 = "\<lambda>k. int (length (filter (\<lambda>yp. fst yp = 0 \<and> unat (snd yp) = k) ?ypat))"
  let ?h1 = "\<lambda>k. int (length (filter (\<lambda>yp. fst yp = 1 \<and> unat (snd yp) = k) ?ypat))"
  let ?c0 = "map2 (\<lambda>c k. (fst c + ?h0 k, snd c)) counts [0..<8]"
  let ?ok0 = "\<forall>yp \<in> set ?ypat. fst yp = 0 \<longrightarrow> unat (snd yp) < 8"
  let ?ok1 = "\<forall>yp \<in> set ?ypat. fst yp = 1 \<longrightarrow> unat (snd yp) < 8"
  have s0: "count_label ?ypat counts 0 = (if ?ok0 then Inr ?c0 else Inl ValueError)"
    using count_label_char [OF assms, of 0 ?ypat] by (simp add: Let_def)
  have len0: "length ?c0 = 8" using assms by simp
  have s1: "count_label ?ypat ?c0 1 =
      (if ?ok1 then Inr (map2 (\<lambda>c k. (fst c, snd c + ?h1 k)) ?c0 [0..<8]) else Inl ValueError)"
    using count_label_char [OF len0, of 1 ?ypat] by (simp add: Let_def)
  have bad: "(\<exists>v \<in> set kept. bad_row v) \<longleftrightarrow> \<not> (?ok0 \<and> ?ok1)"
    by (auto simp: bad_row_def)
  have h0: "\<And>k. ?h0 k = int (length (filter (\<lambda>v. lab_of v = 0 \<and> unat (pat_of v) = k) kept))"
    by (simp add: filter_map comp_def)
  have h1: "\<And>k. ?h1 k = int (length (filter (\<lambda>v. lab_of v = 1 \<and> unat (pat_of v) = k) kept))"
    by (simp add: filter_map comp_def)
  have fin: "map2 (\<lambda>c k. (fst c, snd c + ?h1 k)) ?c0 [0..<8] = hist_add counts (hist_of kept)"
    using assms unfolding h0 h1
    by (simp add: list_eq_iff_nth_eq hist_add_def hist_of_def)
  have cp: "count_patterns kept counts
      = and_then (count_label ?ypat counts 0) (\<lambda>counts'. count_label ?ypat counts' 1)"
    by (simp only: count_patterns_def Let_def ypat_conv)
  show ?thesis
  proof (cases ?ok0)
    case False
    have "count_patterns kept counts = Inl ValueError"
      by (simp only: cp s0 False if_False and_then_def sum.case)
    moreover have "\<exists>v \<in> set kept. bad_row v" using False bad by blast
    ultimately show ?thesis by (simp only: if_True)
  next
    case ok0: True
    have cp1: "count_patterns kept counts = count_label ?ypat ?c0 1"
      by (simp only: cp s0 eqTrueI [OF ok0] if_True and_then_def sum.case)
    show ?thesis
    proof (cases ?ok1)
      case False
      have "count_patterns kept counts = Inl ValueError"
        by (simp only: cp1 s1 False if_False)
      moreover have "\<exists>v \<in> set kept. bad_row v" using False bad by blast
      ultimately show ?thesis by (simp only: if_True)
    next
      case True
      have "count_patterns kept counts = Inr (hist_add counts (hist_of kept))"
        by (simp only: cp1 s1 eqTrueI [OF True] if_True fin)
      moreover have "\<not> (\<exists>v \<in> set kept. bad_row v)" using True ok0 bad by blast
      ultimately show ?thesis by (simp only: if_False)
    qed
  qed
qed

lemma hist_of_Nil: "hist_of [] = replicate 8 (0, 0)"
  by (simp add: hist_of_def list_eq_iff_nth_eq)

lemma hist_of_append: "hist_of (a @ b) = hist_add (hist_of a) (hist_of b)"
  by (simp add: hist_of_def hist_add_def list_eq_iff_nth_eq)

lemma hist_add_assoc: "hist_add (hist_add a b) c = hist_add a (hist_add b c)"
  by (simp add: hist_add_def list_eq_iff_nth_eq)

lemma hist_add_commute: "hist_add a b = hist_add b a"
  by (simp add: hist_add_def list_eq_iff_nth_eq add.commute)

lemma hist_add_zero: "length c = 8 \<Longrightarrow> hist_add c (replicate 8 (0, 0)) = c"
  by (simp add: hist_add_def list_eq_iff_nth_eq)

lemma hist_add_zero_left: "length c = 8 \<Longrightarrow> hist_add (replicate 8 (0, 0)) c = c"
  by (simp add: hist_add_def list_eq_iff_nth_eq)

lemma kept_rows_Nil [simp]: "kept_rows families [] = []"
  by (simp add: kept_rows_def)

lemma kept_rows_Cons:
  "kept_rows families (b # bs) = List.map_filter (batch_mask families) b @ kept_rows families bs"
  by (simp add: kept_rows_def)

lemma kept_rows_append:
  "kept_rows families (A @ B) = kept_rows families A @ kept_rows families B"
  by (simp add: kept_rows_def)

lemma map_filter_append: "List.map_filter f (xs @ ys) = List.map_filter f xs @ List.map_filter f ys"
  by (simp add: List.map_filter_def)

lemma kept_rows_concat: "kept_rows families [concat batches] = kept_rows families batches"
  by (induction batches) (simp_all add: kept_rows_def map_filter_append List.map_filter_simps)

lemma aggregate_loop_char:
  assumes "length counts = 8"
  shows "aggregate_loop families (counts, total_seen, total_kept) batches =
     (if \<exists>v \<in> set (kept_rows families batches). bad_row v then Inl ValueError
      else Inr (hist_add counts (hist_of (kept_rows families batches)),
                total_seen + int (length (concat batches)),
                total_kept + int (length (kept_rows families batches))))"
  using assms
proof (induction batches arbitrary: counts total_seen total_kept)
  case Nil
  then show ?case by (simp add: hist_of_Nil hist_add_zero)
next
  case (Cons b bs)
  let ?k = "List.map_filter (batch_mask families) b"
  show ?case
  proof (cases "?k = []")
    case True
    then show ?thesis
      using Cons.IH [OF Cons.prems, of "total_seen + int (length b)" total_kept]
      by (simp add: kept_rows_Cons Let_def add.assoc)
  next
    case False
    show ?thesis
    proof (cases "\<exists>v \<in> set ?k. bad_row v")
      case True
      then show ?thesis using False
        by (auto simp add: kept_rows_Cons Let_def count_patterns_char [OF Cons.prems] and_then_def)
    next
      case nb: False
      have len: "length (hist_add counts (hist_of ?k)) = 8" using Cons.prems by simp
      show ?thesis
        using False nb
          Cons.IH [OF len, of "total_seen + int (length b)" "total_kept + int (length ?k)"]
        by (auto simp add: kept_rows_Cons Let_def count_patterns_char [OF Cons.prems] and_then_def
            hist_of_append hist_add_assoc add.assoc)
    qed
  qed
qed

lemma kept_rows_eval_Nil [simp]: "kept_rows_eval [] = []"
  by (simp add: kept_rows_eval_def)

lemma kept_rows_eval_Cons:
  "kept_rows_eval (b # bs) = List.map_filter finite_row b @ kept_rows_eval bs"
  by (simp add: kept_rows_eval_def)

lemma kept_rows_eval_append:
  "kept_rows_eval (A @ B) = kept_rows_eval A @ kept_rows_eval B"
  by (simp add: kept_rows_eval_def)

lemma kept_rows_eval_concat: "kept_rows_eval [concat batches] = kept_rows_eval batches"
  by (induction batches) (simp_all add: kept_rows_eval_def map_filter_append List.map_filter_simps)

lemma kept_rows_None: "kept_rows None batches = kept_rows_eval batches"
proof -
  have "batch_mask None = finite_row"
    by (rule ext) (simp add: batch_mask_def split: option.splits)
  then show ?thesis by (simp add: kept_rows_def kept_rows_eval_def)
qed

lemma family_loop_ok:
  assumes "cbf_ok cbf" "\<not> (\<exists>v \<in> set kept. bad_row v)"
  shows "\<exists>cbf'. family_loop kept cbf ufam = Inr cbf' \<and> cbf_ok cbf'"
  using assms(1)
proof (induction ufam arbitrary: cbf)
  case Nil
  then show ?case by simp
next
  case (Cons f ufam)
  let ?rows = "filter (\<lambda>r. fst r = f) kept"
  let ?arr = "case cbf f of None \<Rightarrow> replicate 8 (0, 0) | Some a \<Rightarrow> a"
  have len: "length ?arr = 8" using Cons.prems by (auto simp: cbf_ok_def split: option.splits)
  have nb: "\<not> (\<exists>v \<in> set ?rows. bad_row v)" using assms(2) by auto
  have cp: "count_patterns ?rows ?arr = Inr (hist_add ?arr (hist_of ?rows))"
    using count_patterns_char [OF len, of ?rows] nb by simp
  have ok': "cbf_ok (cbf(f \<mapsto> hist_add ?arr (hist_of ?rows)))"
    using Cons.prems len by (auto simp: cbf_ok_def)
  show ?case
  proof (cases "?rows = []")
    case True
    then show ?thesis using Cons.IH [OF Cons.prems] by simp
  next
    case False
    from Cons.IH [OF ok'] obtain cbf' where
      r: "family_loop kept (cbf(f \<mapsto> hist_add ?arr (hist_of ?rows))) ufam = Inr cbf'" "cbf_ok cbf'"
      by blast
    have "family_loop kept cbf (f # ufam) = family_loop kept (cbf(f \<mapsto> hist_add ?arr (hist_of ?rows))) ufam"
      using False by (simp only: family_loop.simps Let_def cp and_then_def sum.case if_False)
    then show ?thesis using r by simp
  qed
qed

lemma aggregate_loop_eval_char:
  assumes "length counts = 8" "cbf_ok cbf"
  shows "if \<exists>v \<in> set (kept_rows_eval batches). bad_row v
     then aggregate_loop_eval by_family (counts, cbf, n_pos, n_neg) batches = Inl ValueError
     else \<exists>cbf'. aggregate_loop_eval by_family (counts, cbf, n_pos, n_neg) batches =
            Inr (hist_add counts (hist_of (kept_rows_eval batches)), cbf',
                 n_pos + int (length (filter (\<lambda>v. lab_of v = 1) (kept_rows_eval batches))),
                 n_neg + int (length (filter (\<lambda>v. lab_of v = 0) (kept_rows_eval batches))))
          \<and> cbf_ok cbf'"
  using assms
proof (induction batches arbitrary: counts cbf n_pos n_neg)
  case Nil
  then show ?case by (simp add: hist_of_Nil hist_add_zero)
next
  case (Cons b bs)
  let ?k = "List.map_filter finite_row b"
  show ?case
  proof (cases "?k = []")
    case True
    then show ?thesis
      using Cons.IH [OF Cons.prems, of n_pos n_neg]
      by (simp add: kept_rows_eval_Cons)
  next
    case False
    show ?thesis
    proof (cases "\<exists>v \<in> set ?k. bad_row v")
      case True
      then show ?thesis using False
        by (auto simp add: kept_rows_eval_Cons Let_def count_patterns_char [OF Cons.prems(1)] and_then_def)
    next
      case nb: False
      have len: "length (hist_add counts (hist_of ?k)) = 8" using Cons.prems by simp
      obtain cbf1 where f1: "(if by_family then family_loop ?k cbf (remdups (map fst ?k)) else Inr cbf) = Inr cbf1"
        and ok1: "cbf_ok cbf1"
        using family_loop_ok [OF Cons.prems(2) nb, of "remdups (map fst ?k)"] Cons.prems(2)
        by (cases by_family) auto
      let ?np = "n_pos + int (length (filter (\<lambda>v. lab_of v = 1) ?k))"
      let ?nn = "n_neg + int (length (filter (\<lambda>v. lab_of v = 0) ?k))"
      have cp: "count_patterns ?k counts = Inr (hist_add counts (hist_of ?k))"
        using count_patterns_char [OF Cons.prems(1), of ?k] nb by simp
      have step: "aggregate_loop_eval by_family (counts, cbf, n_pos, n_neg) (b # bs)
          = aggregate_loop_eval by_family (hist_add counts (hist_of ?k), cbf1, ?np, ?nn) bs"
        using False by (simp add: Let_def cp f1 and_then_def lab_of_def)
      have bad_iff: "(\<exists>v \<in> set (kept_rows_eval (b # bs)). bad_row v)
          \<longleftrightarrow> (\<exists>v \<in> set (kept_rows_eval bs). bad_row v)"
        using nb by (auto simp: kept_rows_eval_Cons)
      show ?thesis
        unfolding step bad_iff
        using Cons.IH [OF len ok1, of ?np ?nn]
        by (auto simp add: kept_rows_eval_Cons hist_of_append hist_add_assoc add.assoc
            split: if_splits)
    qed
  qed
qed

lemma masked_count:
  "(\<Sum>p = 0..<n. if M p then int (length (filter (\<lambda>v. P v \<and> k v = p) rows)) else 0)
     = int (length (filter (\<lambda>v. P v \<and> k v < n \<and> M (k v)) rows))"
  for k :: "'a \<Rightarrow> nat"
proof (induction rows)
  case Nil
  then show ?case by (simp cong: if_cong)
next
  case (Cons v rows)
  have "(\<Sum>p = 0..<n. if M p then int (length (filter (\<lambda>v. P v \<and> k v = p) (v # rows))) else 0)
      = (\<Sum>p = 0..<n. (if p = k v then (if M p \<and> P v then 1 else 0) else 0)
                      + (if M p then int (length (filter (\<lambda>v. P v \<and> k v = p) rows)) else 0))"
    by (rule sum.cong) auto
  also have "\<dots> = (\<Sum>p = 0..<n. if p = k v then (if M p \<and> P v then 1 else 0) else 0)
                  + (\<Sum>p = 0..<n. if M p then int (length (filter (\<lambda>v. P v \<and> k v = p) rows)) else 0)"
    by (rule sum.distrib)
  also have "(\<Sum>p = 0..<n. if p = k v then (if M p \<and> P v then 1 else 0) else 0)
      = (if k v < n \<and> M (k v) \<and> P v then (1::int) else 0)"
    by (subst sum.delta) auto
  finally show ?case using Cons.IH by simp
qed

lemma sum_list_upt_sum: "sum_list (map f [0..<n]) = (\<Sum>p = 0..<n. f p)"
  for f :: "nat \<Rightarrow> int"
  by (simp add: interv_sum_list_conv_sum_set_nat)

lemma masked_sum_conv:
  "length a = length m \<Longrightarrow>
   sum_list (map fst (filter snd (zip a m))) = (\<Sum>p = 0..<length a. if m ! p then a ! p else (0::int))"
proof (induction a m rule: list_induct2)
  case Nil
  then show ?case by simp
next
  case (Cons x xs y ys)
  have "(\<Sum>p = 0..<length (x # xs). if (y # ys) ! p then (x # xs) ! p else 0)
      = (if y then x else 0) + (\<Sum>p = 0..<length xs. if ys ! p then xs ! p else 0)"
    by (simp only: length_Cons sum.atLeast0_lessThan_Suc_shift nth_Cons_0 nth_Cons_Suc)
      (simp add: comp_def cong: if_cong)
  then show ?case using Cons.IH by simp
qed

lemma binary_flags_pat: "binary_flags v \<Longrightarrow> unat (pat_of v) < 8"
  by (cases v) (auto simp: binary_flags_def pat_of_def pattern_def)

lemma binary_flags_not_bad: "binary_flags v \<Longrightarrow> \<not> bad_row v"
  by (simp add: bad_row_def binary_flags_pat)

lemma length_filter_disj:
  "(\<And>x. \<not> (A x \<and> B x)) \<Longrightarrow>
   length (filter A xs) + length (filter B xs) = length (filter (\<lambda>x. A x \<or> B x) xs)"
  by (induction xs) auto

lemma hist_total:
  "sum_list (map (\<lambda>c. fst c + snd c) (hist_of rows))
     = int (length (filter (\<lambda>v. binary_label v \<and> unat (pat_of v) < 8) rows))"
proof -
  let ?h0 = "\<lambda>p. int (length (filter (\<lambda>v. lab_of v = 0 \<and> unat (pat_of v) = p) rows))"
  let ?h1 = "\<lambda>p. int (length (filter (\<lambda>v. lab_of v = 1 \<and> unat (pat_of v) = p) rows))"
  have "sum_list (map (\<lambda>c. fst c + snd c) (hist_of rows)) = (\<Sum>p = 0..<8. ?h0 p + ?h1 p)"
    by (simp add: hist_of_def comp_def sum_list_upt_sum)
  also have "\<dots> = (\<Sum>p = 0..<8. ?h0 p) + (\<Sum>p = 0..<8. ?h1 p)"
    by (rule sum.distrib)
  also have "(\<Sum>p = 0..<8. ?h0 p)
      = int (length (filter (\<lambda>v. lab_of v = 0 \<and> unat (pat_of v) < 8) rows))"
    using masked_count [where n = 8 and M = "\<lambda>p. True" and P = "\<lambda>v. lab_of v = 0"
        and k = "\<lambda>v. unat (pat_of v)" and rows = rows] by simp
  also have "(\<Sum>p = 0..<8. ?h1 p)
      = int (length (filter (\<lambda>v. lab_of v = 1 \<and> unat (pat_of v) < 8) rows))"
    using masked_count [where n = 8 and M = "\<lambda>p. True" and P = "\<lambda>v. lab_of v = 1"
        and k = "\<lambda>v. unat (pat_of v)" and rows = rows] by simp
  also have "int (length (filter (\<lambda>v. lab_of v = 0 \<and> unat (pat_of v) < 8) rows))
           + int (length (filter (\<lambda>v. lab_of v = 1 \<and> unat (pat_of v) < 8) rows))
      = int (length (filter (\<lambda>v. (lab_of v = 0 \<and> unat (pat_of v) < 8)
                                  \<or> (lab_of v = 1 \<and> unat (pat_of v) < 8)) rows))"
    using length_filter_disj [of "\<lambda>v. lab_of v = 0 \<and> unat (pat_of v) < 8"
        "\<lambda>v. lab_of v = 1 \<and> unat (pat_of v) < 8" rows]
    by simp
  also have "(\<lambda>v. (lab_of v = 0 \<and> unat (pat_of v) < 8) \<or> (lab_of v = 1 \<and> unat (pat_of v) < 8))
      = (\<lambda>v. binary_label v \<and> unat (pat_of v) < 8)"
    by (auto simp: binary_label_def)
  finally show ?thesis .
qed

lemma hist_total_good:
  assumes "\<forall>v \<in> set rows. binary_label v" "\<not> (\<exists>v \<in> set rows. bad_row v)"
  shows "sum_list (map (\<lambda>c. fst c + snd c) (hist_of rows)) = int (length rows)"
proof -
  have "filter (\<lambda>v. binary_label v \<and> unat (pat_of v) < 8) rows = rows"
    using assms by (auto simp: filter_id_conv bad_row_def binary_label_def)
  then show ?thesis by (simp add: hist_total)
qed

lemma length_map_filter:
  "int (length (List.map_filter f xs)) = int (length xs) - int (length (filter (\<lambda>x. f x = None) xs))"
  by (induction xs) (auto split: option.splits)

lemma length_kept_rows:
  "int (length (kept_rows families batches))
     = int (length (concat batches)) - int (length (filter (\<lambda>r. batch_mask families r = None) (concat batches)))"
  by (induction batches) (simp_all add: kept_rows_Cons length_map_filter)

lemma aggregate_counts_char:
  "aggregate_counts batches families =
     (if \<exists>v \<in> set (kept_rows families batches). bad_row v then Inl ValueError
      else Inr (hist_of (kept_rows families batches), int (length (concat batches)),
                int (length (kept_rows families batches))))"
  unfolding aggregate_counts_def
  by (simp add: aggregate_loop_char hist_add_zero_left)

lemma aggregate_counts_eval_char:
  "if \<exists>v \<in> set (kept_rows_eval batches). bad_row v
   then aggregate_counts_eval batches by_family = Inl ValueError
   else \<exists>cbf. aggregate_counts_eval batches by_family =
          Inr (hist_of (kept_rows_eval batches), cbf,
               int (length (filter (\<lambda>v. lab_of v = 1) (kept_rows_eval batches))),
               int (length (filter (\<lambda>v. lab_of v = 0) (kept_rows_eval batches))))"
proof -
  have z: "length (replicate 8 (0::int, 0::int)) = 8" by simp
  have e: "cbf_ok Map.empty" by (simp add: cbf_ok_def)
  show ?thesis
    using aggregate_loop_eval_char [OF z e, of batches by_family 0 0]
    unfolding aggregate_counts_eval_def
    by (auto simp add: hist_add_zero_left split: if_splits)
qed

text \<open>
  C4. When the aggregation of the stream \<open>A\<close> and that of the stream \<open>B\<close> return, the
  aggregation of \<open>A @ B\<close> returns the elementwise sum of the two histograms (and the sums
  of the row counts), so does that of \<open>B @ A\<close>, and so does that of the same rows in one
  batch; this for \<open>aggregate_counts\<close> of find_weights.py and for the global matrix and
  the totals of \<open>aggregate_counts\<close> of evaluate.py. The aggregation of \<open>A @ B\<close> raises
  exactly when that of \<open>A\<close> or that of \<open>B\<close> does.
\<close>

theorem histogram_merge_additive:
  "(aggregate_counts A families = Inr (hA, sA, kA) \<and> aggregate_counts B families = Inr (hB, sB, kB) \<longrightarrow>
       aggregate_counts (A @ B) families = Inr (hist_add hA hB, sA + sB, kA + kB)
     \<and> aggregate_counts (B @ A) families = Inr (hist_add hA hB, sA + sB, kA + kB)
     \<and> aggregate_counts [concat (A @ B)] families = Inr (hist_add hA hB, sA + sB, kA + kB)
     \<and> length (hist_add hA hB) = 8
     \<and> (\<forall>p < 8. hist_add hA hB ! p = (fst (hA ! p) + fst (hB ! p), snd (hA ! p) + snd (hB ! p))))
   \<and> (aggregate_counts_eval A by_family = Inr (gA, fA, pA, nA)
      \<and> aggregate_counts_eval B by_family = Inr (gB, fB, pB, nB) \<longrightarrow>
       (\<exists>fAB. aggregate_counts_eval (A @ B) by_family = Inr (hist_add gA gB, fAB, pA + pB, nA + nB))
     \<and> (\<exists>fBA. aggregate_counts_eval (B @ A) by_family = Inr (hist_add gA gB, fBA, pA + pB, nA + nB)))
   \<and> ((\<exists>e. aggregate_counts (A @ B) families = Inl e)
        \<longleftrightarrow> (\<exists>e. aggregate_counts A families = Inl e) \<or> (\<exists>e. aggregate_counts B families = Inl e))"
proof (intro conjI impI)
  assume "aggregate_counts A families = Inr (hA, sA, kA) \<and> aggregate_counts B families = Inr (hB, sB, kB)"
  then have a: "\<not> (\<exists>v \<in> set (kept_rows families A). bad_row v)" "hA = hist_of (kept_rows families A)"
      "sA = int (length (concat A))" "kA = int (length (kept_rows families A))"
    and b: "\<not> (\<exists>v \<in> set (kept_rows families B). bad_row v)" "hB = hist_of (kept_rows families B)"
      "sB = int (length (concat B))" "kB = int (length (kept_rows families B))"
    by (auto simp: aggregate_counts_char split: if_splits)
  show "aggregate_counts (A @ B) families = Inr (hist_add hA hB, sA + sB, kA + kB)"
    using a b by (auto simp: aggregate_counts_char kept_rows_append hist_of_append)
  show "aggregate_counts (B @ A) families = Inr (hist_add hA hB, sA + sB, kA + kB)"
    using a b by (auto simp: aggregate_counts_char kept_rows_append hist_of_append hist_add_commute)
  show "aggregate_counts [concat (A @ B)] families = Inr (hist_add hA hB, sA + sB, kA + kB)"
    using a b kept_rows_concat [of families "A @ B"]
    by (auto simp: aggregate_counts_char kept_rows_append hist_of_append)
  show "length (hist_add hA hB) = 8" using a b by simp
  show "\<forall>p < 8. hist_add hA hB ! p = (fst (hA ! p) + fst (hB ! p), snd (hA ! p) + snd (hB ! p))"
    using a b by (simp add: hist_add_def)
next
  assume "aggregate_counts_eval A by_family = Inr (gA, fA, pA, nA)
      \<and> aggregate_counts_eval B by_family = Inr (gB, fB, pB, nB)"
  then have a: "\<not> (\<exists>v \<in> set (kept_rows_eval A). bad_row v)" "gA = hist_of (kept_rows_eval A)"
      "pA = int (length (filter (\<lambda>v. lab_of v = 1) (kept_rows_eval A)))"
      "nA = int (length (filter (\<lambda>v. lab_of v = 0) (kept_rows_eval A)))"
    and b: "\<not> (\<exists>v \<in> set (kept_rows_eval B). bad_row v)" "gB = hist_of (kept_rows_eval B)"
      "pB = int (length (filter (\<lambda>v. lab_of v = 1) (kept_rows_eval B)))"
      "nB = int (length (filter (\<lambda>v. lab_of v = 0) (kept_rows_eval B)))"
    using aggregate_counts_eval_char [of A by_family] aggregate_counts_eval_char [of B by_family]
    by (auto split: if_splits)
  show "\<exists>fAB. aggregate_counts_eval (A @ B) by_family = Inr (hist_add gA gB, fAB, pA + pB, nA + nB)"
    using a b aggregate_counts_eval_char [of "A @ B" by_family]
    by (auto simp: kept_rows_eval_append hist_of_append split: if_splits)
  show "\<exists>fBA. aggregate_counts_eval (B @ A) by_family = Inr (hist_add gA gB, fBA, pA + pB, nA + nB)"
    using a b aggregate_counts_eval_char [of "B @ A" by_family]
    by (auto simp: kept_rows_eval_append hist_of_append hist_add_commute split: if_splits)
next
  show "(\<exists>e. aggregate_counts (A @ B) families = Inl e)
        \<longleftrightarrow> (\<exists>e. aggregate_counts A families = Inl e) \<or> (\<exists>e. aggregate_counts B families = Inl e)"
    by (auto simp: aggregate_counts_char kept_rows_append split: if_splits)
qed

theorem histogram_merge_additive_witness:
  "aggregate_counts example_A None =
     Inr ([(1, 0), (0, 0), (0, 0), (0, 0), (0, 0), (0, 0), (0, 0), (0, 1)], 3, 2)
   \<and> aggregate_counts example_B None =
     Inr ([(0, 0), (0, 1), (0, 0), (0, 0), (0, 0), (0, 0), (0, 0), (0, 1)], 2, 2)
   \<and> aggregate_counts (example_A @ example_B) None =
     Inr ([(1, 0), (0, 1), (0, 0), (0, 0), (0, 0), (0, 0), (0, 0), (0, 2)], 5, 4)
   \<and> aggregate_counts (example_B @ example_A) None =
     Inr ([(1, 0), (0, 1), (0, 0), (0, 0), (0, 0), (0, 0), (0, 0), (0, 2)], 5, 4)"
proof -
  have a: "aggregate_counts example_A None =
     Inr ([(1, 0), (0, 0), (0, 0), (0, 0), (0, 0), (0, 0), (0, 0), (0, 1)], 3, 2)"
    by code_simp
  have b: "aggregate_counts example_B None =
     Inr ([(0, 0), (0, 1), (0, 0), (0, 0), (0, 0), (0, 0), (0, 0), (0, 1)], 2, 2)"
    by code_simp
  show ?thesis
    using a b
      histogram_merge_additive [of example_A None
        "[(1, 0), (0, 0), (0, 0), (0, 0), (0, 0), (0, 0), (0, 0), (0, 1)]" 3 2 example_B
        "[(0, 0), (0, 1), (0, 0), (0, 0), (0, 0), (0, 0), (0, 0), (0, 1)]" 2 2]
    by (simp add: hist_add_def)
qed

lemma finite_row_None: "finite_row r = None \<longleftrightarrow> has_missing r"
  by (auto simp: finite_row_def has_missing_def split: option.splits)

lemma batch_mask_unfiltered:
  "families = None \<or> families = Some [] \<Longrightarrow> batch_mask families r = None \<longleftrightarrow> has_missing r"
  by (auto simp: batch_mask_def finite_row_None [symmetric] split: option.splits)

text \<open>
  C9. After an aggregation that returns, on a stream whose kept rows have labels 0 or 1,
  the sum over the 8 patterns of \<open>count_label0 + count_label1\<close> is the kept count that
  \<open>aggregate_counts\<close> of find_weights.py reports, which is the number of rows seen minus
  the rows the mask dropped (with no family filter: the rows with a missing or non-finite
  cell); for \<open>aggregate_counts\<close> of evaluate.py the sum is \<open>n_pos + n_neg\<close>, the number
  of kept rows. On a stream whose kept rows have flags 0 or 1 the aggregation returns.
\<close>

theorem histogram_count_conservation:
  "(aggregate_counts batches families = Inr (counts, total_seen, total_kept)
      \<and> (\<forall>v \<in> set (kept_rows families batches). binary_label v) \<longrightarrow>
        sum_list (map (\<lambda>c. fst c + snd c) counts) = total_kept
      \<and> total_seen = int (length (concat batches))
      \<and> total_kept = total_seen - int (length (filter (\<lambda>r. batch_mask families r = None) (concat batches)))
      \<and> (families = None \<or> families = Some [] \<longrightarrow>
           total_kept = total_seen - int (length (filter has_missing (concat batches)))))
   \<and> (aggregate_counts_eval batches by_family = Inr (counts_global, cbf, n_pos, n_neg)
      \<and> (\<forall>v \<in> set (kept_rows_eval batches). binary_label v) \<longrightarrow>
        sum_list (map (\<lambda>c. fst c + snd c) counts_global) = n_pos + n_neg
      \<and> n_pos + n_neg = int (length (kept_rows_eval batches)))
   \<and> ((\<forall>v \<in> set (kept_rows families batches). binary_flags v) \<longrightarrow>
        (\<exists>c s k. aggregate_counts batches families = Inr (c, s, k)))"
proof (intro conjI impI)
  assume h: "aggregate_counts batches families = Inr (counts, total_seen, total_kept)
      \<and> (\<forall>v \<in> set (kept_rows families batches). binary_label v)"
  then have a: "\<not> (\<exists>v \<in> set (kept_rows families batches). bad_row v)"
      "counts = hist_of (kept_rows families batches)"
      "total_seen = int (length (concat batches))"
      "total_kept = int (length (kept_rows families batches))"
    by (auto simp: aggregate_counts_char split: if_splits)
  from h have lab: "\<forall>v \<in> set (kept_rows families batches). binary_label v" by blast
  show "sum_list (map (\<lambda>c. fst c + snd c) counts) = total_kept"
    using hist_total_good [OF lab a(1)] a(2) a(4) by simp
  show "total_seen = int (length (concat batches))" by (rule a(3))
  show "total_kept = total_seen - int (length (filter (\<lambda>r. batch_mask families r = None) (concat batches)))"
    using a(3) a(4) by (simp add: length_kept_rows)
  assume "families = None \<or> families = Some []"
  then have "(\<lambda>r. batch_mask families r = None) = has_missing"
    using batch_mask_unfiltered by blast
  then show "total_kept = total_seen - int (length (filter has_missing (concat batches)))"
    using a(3) a(4) by (simp add: length_kept_rows)
next
  assume h: "aggregate_counts_eval batches by_family = Inr (counts_global, cbf, n_pos, n_neg)
      \<and> (\<forall>v \<in> set (kept_rows_eval batches). binary_label v)"
  then have a: "\<not> (\<exists>v \<in> set (kept_rows_eval batches). bad_row v)"
      "counts_global = hist_of (kept_rows_eval batches)"
      "n_pos = int (length (filter (\<lambda>v. lab_of v = 1) (kept_rows_eval batches)))"
      "n_neg = int (length (filter (\<lambda>v. lab_of v = 0) (kept_rows_eval batches)))"
    using aggregate_counts_eval_char [of batches by_family] by (auto split: if_splits)
  from h have lab: "\<forall>v \<in> set (kept_rows_eval batches). binary_label v" by blast
  have "filter (\<lambda>v. lab_of v = 1 \<or> lab_of v = 0) (kept_rows_eval batches) = kept_rows_eval batches"
    using lab by (auto simp: filter_id_conv binary_label_def)
  then have tot: "n_pos + n_neg = int (length (kept_rows_eval batches))"
    using length_filter_disj [of "\<lambda>v. lab_of v = 1" "\<lambda>v. lab_of v = 0" "kept_rows_eval batches"] a(3) a(4)
    by simp
  show "sum_list (map (\<lambda>c. fst c + snd c) counts_global) = n_pos + n_neg"
    using hist_total_good [OF lab a(1)] a(2) tot by simp
  show "n_pos + n_neg = int (length (kept_rows_eval batches))" by (rule tot)
next
  assume "\<forall>v \<in> set (kept_rows families batches). binary_flags v"
  then have "\<not> (\<exists>v \<in> set (kept_rows families batches). bad_row v)"
    using binary_flags_not_bad by blast
  then show "\<exists>c s k. aggregate_counts batches families = Inr (c, s, k)"
    by (simp add: aggregate_counts_char)
qed

theorem histogram_count_conservation_witness:
  "aggregate_counts (example_A @ example_B) None =
     Inr ([(1, 0), (0, 1), (0, 0), (0, 0), (0, 0), (0, 0), (0, 0), (0, 2)], 5, 4)
   \<and> list_all binary_label (kept_rows None (example_A @ example_B))
   \<and> sum_list (map (\<lambda>c. fst c + snd c) [(1, 0), (0, 1), (0, 0), (0, 0), (0, 0), (0, 0), (0, 0), (0, 2)]) = (4::int)
   \<and> length (concat (example_A @ example_B)) = 5
   \<and> length (filter has_missing (concat (example_A @ example_B))) = 1"
proof -
  have a: "aggregate_counts (example_A @ example_B) None =
     Inr ([(1, 0), (0, 1), (0, 0), (0, 0), (0, 0), (0, 0), (0, 0), (0, 2)], 5, 4)"
    by code_simp
  have b: "list_all binary_label (kept_rows None (example_A @ example_B))"
    by code_simp
  have c: "length (filter has_missing (concat (example_A @ example_B))) = 1"
    by code_simp
  have d: "length (concat (example_A @ example_B)) = 5"
    by code_simp
  show ?thesis
    using a b c d
      histogram_count_conservation [of "example_A @ example_B" None
        "[(1, 0), (0, 1), (0, 0), (0, 0), (0, 0), (0, 0), (0, 0), (0, 2)]" 5 4]
    by (simp add: list_all_iff)
qed

lemma score_pattern:
  "binary_flags v \<Longrightarrow> score_of v = SCORES_BY_PATTERN ! unat (pat_of v)"
  by (cases v)
    (auto simp: binary_flags_def score_of_def pat_of_def pattern_def weighted_score_def
      SCORES_BY_PATTERN_def)

lemma hist_columns:
  "map fst (hist_of rows)
     = map (\<lambda>p. int (length (filter (\<lambda>v. lab_of v = 0 \<and> unat (pat_of v) = p) rows))) [0..<8]"
  "map snd (hist_of rows)
     = map (\<lambda>p. int (length (filter (\<lambda>v. lab_of v = 1 \<and> unat (pat_of v) = p) rows))) [0..<8]"
  by (simp_all add: hist_of_def comp_def)

lemma column_masked:
  assumes "\<forall>v \<in> set rows. binary_flags v"
  shows "sum_list (map fst (filter snd
            (zip (map (\<lambda>p. int (length (filter (\<lambda>v. lab_of v = l \<and> unat (pat_of v) = p) rows))) [0..<8])
                 (map (\<lambda>s. s \<ge> t) SCORES_BY_PATTERN))))
         = int (length (filter (\<lambda>v. lab_of v = l \<and> score_of v \<ge> t) rows))"
proof -
  let ?col = "map (\<lambda>p. int (length (filter (\<lambda>v. lab_of v = l \<and> unat (pat_of v) = p) rows))) [0..<8]"
  let ?m = "map (\<lambda>s. s \<ge> t) SCORES_BY_PATTERN"
  have len8: "length SCORES_BY_PATTERN = 8" by (simp add: SCORES_BY_PATTERN_def)
  have len: "length ?col = length ?m" by (simp add: len8)
  have "sum_list (map fst (filter snd (zip ?col ?m)))
      = (\<Sum>p = 0..<length ?col. if ?m ! p then ?col ! p else 0)"
    using len by (rule masked_sum_conv)
  also have "\<dots> = (\<Sum>p = 0..<8. if t \<le> SCORES_BY_PATTERN ! p
        then int (length (filter (\<lambda>v. lab_of v = l \<and> unat (pat_of v) = p) rows)) else 0)"
    by (rule sum.cong) (simp_all add: len8)
  also have "\<dots> = int (length (filter
        (\<lambda>v. lab_of v = l \<and> unat (pat_of v) < 8 \<and> t \<le> SCORES_BY_PATTERN ! unat (pat_of v)) rows))"
    by (rule masked_count)
  also have "filter (\<lambda>v. lab_of v = l \<and> unat (pat_of v) < 8 \<and> t \<le> SCORES_BY_PATTERN ! unat (pat_of v)) rows
      = filter (\<lambda>v. lab_of v = l \<and> score_of v \<ge> t) rows"
    using assms by (intro filter_cong refl) (auto simp: score_pattern binary_flags_pat)
  finally show ?thesis .
qed

lemma column_total:
  assumes "\<forall>v \<in> set rows. binary_flags v"
  shows "sum_list (map (\<lambda>p. int (length (filter (\<lambda>v. lab_of v = l \<and> unat (pat_of v) = p) rows))) [0..<8])
         = int (length (filter (\<lambda>v. lab_of v = l) rows))"
proof -
  have "sum_list (map (\<lambda>p. int (length (filter (\<lambda>v. lab_of v = l \<and> unat (pat_of v) = p) rows))) [0..<8])
      = (\<Sum>p = 0..<8. if True then int (length (filter (\<lambda>v. lab_of v = l \<and> unat (pat_of v) = p) rows)) else 0)"
    by (simp add: sum_list_upt_sum)
  also have "\<dots> = int (length (filter (\<lambda>v. lab_of v = l \<and> unat (pat_of v) < 8 \<and> True) rows))"
    by (rule masked_count)
  also have "filter (\<lambda>v. lab_of v = l \<and> unat (pat_of v) < 8 \<and> True) rows = filter (\<lambda>v. lab_of v = l) rows"
    using assms by (intro filter_cong refl) (auto simp: binary_flags_pat)
  finally show ?thesis .
qed

lemma zip_labels_scores:
  "filter Q (zip (map lab_of rows) (map score_of rows))
     = map (\<lambda>v. (lab_of v, score_of v)) (filter (\<lambda>v. Q (lab_of v, score_of v)) rows)"
  by (induction rows) auto

lemma sufficiency_rows:
  assumes flags: "\<forall>v \<in> set rows. binary_flags v"
  shows "\<exists>r m. eval_thresholds_from_counts (hist_of rows) [t] = Inr [r]
           \<and> metrics_at_threshold (map lab_of rows) (map score_of rows) t = Inr m
           \<and> tp r = tp m \<and> fp r = fp m \<and> tn r = tn m \<and> fn r = fn m
           \<and> tpr r = tpr m \<and> fpr r = fpr m \<and> precision r = precision m"
proof -
  let ?pos = "map snd (hist_of rows)" and ?neg = "map fst (hist_of rows)"
  from eval_thresholds_Inr [of "hist_of rows" "[t]"] obtain rs where
    ev: "eval_thresholds_from_counts (hist_of rows) [t] = Inr rs" and
    sp: "list_all2 (row_spec SCORES_BY_PATTERN ?pos ?neg) [t] rs"
    by auto
  from sp obtain r where rs: "rs = [r]" and r: "row_spec SCORES_BY_PATTERN ?pos ?neg t r"
    by (auto simp: list_all2_Cons1)
  from metrics_at_threshold_Inr [of "map lab_of rows" "map score_of rows" t] obtain m where
    mt: "metrics_at_threshold (map lab_of rows) (map score_of rows) t = Inr m" and
    m: "sample_spec (map lab_of rows) (map score_of rows) t m"
    by auto
  let ?n = "\<lambda>Q. int (length (filter Q rows))"
  have tp_r: "tp r = ?n (\<lambda>v. lab_of v = 1 \<and> score_of v \<ge> t)"
    and fp_r: "fp r = ?n (\<lambda>v. lab_of v = 0 \<and> score_of v \<ge> t)"
    using r column_masked [OF flags] by (simp_all add: row_spec_def hist_columns)
  have tot_pos: "sum_list ?pos = ?n (\<lambda>v. lab_of v = 1)"
    and tot_neg: "sum_list ?neg = ?n (\<lambda>v. lab_of v = 0)"
    using column_total [OF flags] by (simp_all add: hist_columns)
  have split: "\<And>l. ?n (\<lambda>v. lab_of v = l)
      = ?n (\<lambda>v. lab_of v = l \<and> score_of v \<ge> t) + ?n (\<lambda>v. lab_of v = l \<and> \<not> score_of v \<ge> t)"
  proof -
    fix l
    have "(\<lambda>v. (lab_of v = l \<and> score_of v \<ge> t) \<or> (lab_of v = l \<and> \<not> score_of v \<ge> t))
        = (\<lambda>v. lab_of v = l)" by auto
    then show "?n (\<lambda>v. lab_of v = l)
      = ?n (\<lambda>v. lab_of v = l \<and> score_of v \<ge> t) + ?n (\<lambda>v. lab_of v = l \<and> \<not> score_of v \<ge> t)"
      using length_filter_disj [of "\<lambda>v. lab_of v = l \<and> score_of v \<ge> t"
          "\<lambda>v. lab_of v = l \<and> \<not> score_of v \<ge> t" rows]
      by simp
  qed
  have fn_r: "fn r = ?n (\<lambda>v. lab_of v = 1 \<and> \<not> score_of v \<ge> t)"
    and tn_r: "tn r = ?n (\<lambda>v. lab_of v = 0 \<and> \<not> score_of v \<ge> t)"
    using r tp_r fp_r tot_pos tot_neg split [of 1] split [of 0] by (simp_all add: row_spec_def)
  have tp_m: "tp m = ?n (\<lambda>v. lab_of v = 1 \<and> score_of v \<ge> t)"
    and fp_m: "fp m = ?n (\<lambda>v. lab_of v = 0 \<and> score_of v \<ge> t)"
    and tn_m: "tn m = ?n (\<lambda>v. lab_of v = 0 \<and> \<not> score_of v \<ge> t)"
    and fn_m: "fn m = ?n (\<lambda>v. lab_of v = 1 \<and> \<not> score_of v \<ge> t)"
    using m by (simp_all add: sample_spec_def zip_labels_scores conj_commute)
  have cnt: "tp r = tp m" "fp r = fp m" "tn r = tn m" "fn r = fn m"
    by (simp_all add: tp_r tp_m fp_r fp_m tn_r tn_m fn_r fn_m)
  have sums: "sum_list ?pos = tp m + fn m" "sum_list ?neg = tn m + fp m"
    using tot_pos tot_neg split [of 1] split [of 0] by (simp_all add: tp_m fp_m tn_m fn_m)
  have rates: "tpr r = tpr m" "fpr r = fpr m" "precision r = precision m"
    using r m cnt sums by (simp_all add: row_spec_def sample_spec_def)
  show ?thesis using ev mt rs cnt rates by simp
qed

text \<open>
  C1. For every stream of batches whose kept rows have flags 0 or 1, and every threshold
  \<open>t\<close>: the aggregation returns a histogram, \<open>eval_thresholds_from_counts\<close> on that
  histogram returns a row, \<open>metrics_at_threshold\<close> on the kept rows' labels and their
  individually computed weighted scores returns, and the two agree on tp, fp, tn and fn
  (and on tpr, fpr and precision). For both \<open>aggregate_counts\<close> functions.
\<close>

theorem sufficient_statistic:
  "((\<forall>v \<in> set (kept_rows_eval batches). binary_flags v) \<longrightarrow>
      (\<exists>counts cbf n_pos n_neg r m.
          aggregate_counts_eval batches by_family = Inr (counts, cbf, n_pos, n_neg)
        \<and> eval_thresholds_from_counts counts [t] = Inr [r]
        \<and> metrics_at_threshold (map lab_of (kept_rows_eval batches))
               (map score_of (kept_rows_eval batches)) t = Inr m
        \<and> tp r = tp m \<and> fp r = fp m \<and> tn r = tn m \<and> fn r = fn m
        \<and> tpr r = tpr m \<and> fpr r = fpr m \<and> precision r = precision m))
   \<and> ((\<forall>v \<in> set (kept_rows families batches). binary_flags v) \<longrightarrow>
      (\<exists>counts total_seen total_kept r m.
          aggregate_counts batches families = Inr (counts, total_seen, total_kept)
        \<and> eval_thresholds_from_counts counts [t] = Inr [r]
        \<and> metrics_at_threshold (map lab_of (kept_rows families batches))
               (map score_of (kept_rows families batches)) t = Inr m
        \<and> tp r = tp m \<and> fp r = fp m \<and> tn r = tn m \<and> fn r = fn m
        \<and> tpr r = tpr m \<and> fpr r = fpr m \<and> precision r = precision m))"
proof (intro conjI impI)
  assume flags: "\<forall>v \<in> set (kept_rows_eval batches). binary_flags v"
  then have nb: "\<not> (\<exists>v \<in> set (kept_rows_eval batches). bad_row v)"
    using binary_flags_not_bad by blast
  with aggregate_counts_eval_char [of batches by_family] obtain cbf where
    agg: "aggregate_counts_eval batches by_family =
          Inr (hist_of (kept_rows_eval batches), cbf,
               int (length (filter (\<lambda>v. lab_of v = 1) (kept_rows_eval batches))),
               int (length (filter (\<lambda>v. lab_of v = 0) (kept_rows_eval batches))))"
    by (auto split: if_splits)
  from sufficiency_rows [OF flags, of t] agg
  show "\<exists>counts cbf n_pos n_neg r m.
          aggregate_counts_eval batches by_family = Inr (counts, cbf, n_pos, n_neg)
        \<and> eval_thresholds_from_counts counts [t] = Inr [r]
        \<and> metrics_at_threshold (map lab_of (kept_rows_eval batches))
               (map score_of (kept_rows_eval batches)) t = Inr m
        \<and> tp r = tp m \<and> fp r = fp m \<and> tn r = tn m \<and> fn r = fn m
        \<and> tpr r = tpr m \<and> fpr r = fpr m \<and> precision r = precision m"
    by blast
next
  assume flags: "\<forall>v \<in> set (kept_rows families batches). binary_flags v"
  then have nb: "\<not> (\<exists>v \<in> set (kept_rows families batches). bad_row v)"
    using binary_flags_not_bad by blast
  then have agg: "aggregate_counts batches families =
      Inr (hist_of (kept_rows families batches), int (length (concat batches)),
           int (length (kept_rows families batches)))"
    by (simp add: aggregate_counts_char)
  from sufficiency_rows [OF flags, of t] agg
  show "\<exists>counts total_seen total_kept r m.
          aggregate_counts batches families = Inr (counts, total_seen, total_kept)
        \<and> eval_thresholds_from_counts counts [t] = Inr [r]
        \<and> metrics_at_threshold (map lab_of (kept_rows families batches))
               (map score_of (kept_rows families batches)) t = Inr m
        \<and> tp r = tp m \<and> fp r = fp m \<and> tn r = tn m \<and> fn r = fn m
        \<and> tpr r = tpr m \<and> fpr r = fpr m \<and> precision r = precision m"
    by blast
qed

theorem sufficient_statistic_witness:
  "list_all binary_flags (kept_rows_eval (example_A @ example_B))
   \<and> map_sum id (\<lambda>r. (fst r, snd (snd r))) (aggregate_counts_eval (example_A @ example_B) False) =
       Inr ([(1, 0), (0, 1), (0, 0), (0, 0), (0, 0), (0, 0), (0, 0), (0, 2)], 3, 1)
   \<and> map_sum id (map (\<lambda>m. (tp m, fp m, tn m, fn m)))
       (eval_thresholds_from_counts
          [(1, 0), (0, 1), (0, 0), (0, 0), (0, 0), (0, 0), (0, 0), (0, 2)] [0.5]) =
       Inr [(3, 0, 1, 0)]
   \<and> map_sum id (\<lambda>m. (tp m, fp m, tn m, fn m))
       (metrics_at_threshold (map lab_of (kept_rows_eval (example_A @ example_B)))
          (map score_of (kept_rows_eval (example_A @ example_B))) 0.5) =
       Inr (3, 0, 1, 0)"
proof -
  have a: "list_all binary_flags (kept_rows_eval (example_A @ example_B))"
    by code_simp
  have b: "map_sum id (\<lambda>r. (fst r, snd (snd r))) (aggregate_counts_eval (example_A @ example_B) False) =
       Inr ([(1, 0), (0, 1), (0, 0), (0, 0), (0, 0), (0, 0), (0, 0), (0, 2)], 3, 1)"
    by code_simp
  have c: "map_sum id (map (\<lambda>m. (tp m, fp m, tn m, fn m)))
       (eval_thresholds_from_counts
          [(1, 0), (0, 1), (0, 0), (0, 0), (0, 0), (0, 0), (0, 0), (0, 2)] [0.5]) =
       Inr [(3, 0, 1, 0)]"
    by code_simp
  have d: "map_sum id (\<lambda>m. (tp m, fp m, tn m, fn m))
       (metrics_at_threshold (map lab_of (kept_rows_eval (example_A @ example_B)))
          (map score_of (kept_rows_eval (example_A @ example_B))) 0.5) =
       Inr (3, 0, 1, 0)"
    by code_simp
  show ?thesis
    using a b c d sufficient_statistic [of "example_A @ example_B" False "0.5" None]
    by (simp add: list_all_iff)
qed

section \<open>The weight learner\<close>

lemma design_rows_Nil [simp]: "design_rows counts [] = []"
  by (simp add: design_rows_def)

lemma design_rows_Cons:
  "design_rows counts (p # ps) =
     ((if fst (counts ! p) > 0 then [(pattern_bits p, 0, real_of_int (fst (counts ! p)))] else [])
      @ (if snd (counts ! p) > 0 then [(pattern_bits p, 1, real_of_int (snd (counts ! p)))] else []))
     @ design_rows counts ps"
  by (simp add: design_rows_def)

lemma design_loop_char:
  assumes "\<forall>p \<in> set ps. p < length counts"
  shows "design_loop counts (X, y, w) ps =
     Inr (X @ map fst (design_rows counts ps),
          y @ map (\<lambda>r. fst (snd r)) (design_rows counts ps),
          w @ map (\<lambda>r. snd (snd r)) (design_rows counts ps))"
  using assms
proof (induction ps arbitrary: X y w)
  case Nil
  then show ?case by simp
next
  case (Cons p ps)
  then have p: "p < length counts" and rest: "\<forall>p \<in> set ps. p < length counts" by simp_all
  show ?case
    using p Cons.IH [OF rest]
    by (simp add: design_rows_Cons Let_def)
qed

lemma design_rows_empty:
  "design_rows counts ps = [] \<longleftrightarrow> (\<forall>p \<in> set ps. fst (counts ! p) \<le> 0 \<and> snd (counts ! p) \<le> 0)"
  by (induction ps) (auto simp: design_rows_Cons)

lemma length_design_rows: "length (design_rows counts ps) \<le> 2 * length ps"
  by (induction ps) (auto simp: design_rows_Cons)

lemma build_weighted_design_char:
  assumes "8 \<le> length counts"
  shows "build_weighted_design counts =
     (if \<forall>p < 8. fst (counts ! p) \<le> 0 \<and> snd (counts ! p) \<le> 0 then Inl RuntimeError
      else Inr (map fst (design_rows counts [0..<8]),
                map (\<lambda>r. fst (snd r)) (design_rows counts [0..<8]),
                map (\<lambda>r. snd (snd r)) (design_rows counts [0..<8])))"
proof -
  have "\<forall>p \<in> set [0..<8]. p < length counts" using assms by simp
  then have dl: "design_loop counts ([], [], []) [0..<8] =
     Inr (map fst (design_rows counts [0..<8]),
          map (\<lambda>r. fst (snd r)) (design_rows counts [0..<8]),
          map (\<lambda>r. snd (snd r)) (design_rows counts [0..<8]))"
    using design_loop_char [of "[0..<8]" counts "[]" "[]" "[]"] by simp
  have e: "design_rows counts [0..<8] = [] \<longleftrightarrow> (\<forall>p < 8. fst (counts ! p) \<le> 0 \<and> snd (counts ! p) \<le> 0)"
    by (auto simp add: design_rows_empty)
  show ?thesis
    unfolding build_weighted_design_def dl using e by (simp add: and_then_def)
qed

lemma sum_list_divide: "sum_list (map (\<lambda>c. c / s) xs) = sum_list xs / (s::real)"
  by (induction xs) (simp_all add: add_divide_distrib)

lemma clip_normalize:
  fixes coef :: "real list"
  assumes ne: "coef \<noteq> []"
  defines "c' \<equiv> map (\<lambda>c. max c 0) coef"
  defines "weights \<equiv> (if sum_list c' \<le> 0 then map (\<lambda>c. 1 / real (length c')) c'
                        else map (\<lambda>c. c / sum_list c') c')"
  shows "length weights = length coef" "\<forall>x \<in> set weights. 0 \<le> x" "sum_list weights = 1"
    "sum_list c' = 0 \<longrightarrow> weights = replicate (length coef) (1 / real (length coef))"
proof -
  have nn: "\<forall>x \<in> set c'. 0 \<le> x" by (simp add: c'_def)
  then have s0: "0 \<le> sum_list c'" by (simp add: sum_list_nonneg)
  have len: "length c' = length coef" by (simp add: c'_def)
  have pos: "0 < length coef" using ne by simp
  show "length weights = length coef" by (simp add: weights_def len)
  show "\<forall>x \<in> set weights. 0 \<le> x" using nn s0 by (auto simp: weights_def)
  have unif: "map (\<lambda>c. 1 / real (length c')) c' = replicate (length coef) (1 / real (length coef))"
    by (simp add: map_replicate_const len)
  show "sum_list weights = 1"
  proof (cases "sum_list c' \<le> 0")
    case True
    then show ?thesis using pos by (simp add: weights_def unif sum_list_replicate)
  next
    case False
    then show ?thesis by (simp add: weights_def sum_list_divide)
  qed
  show "sum_list c' = 0 \<longrightarrow> weights = replicate (length coef) (1 / real (length coef))"
    by (simp add: weights_def unif)
qed

text \<open>
  C2. Whatever coefficient vector (of at least one entry) the logistic fit returns, the
  weight vector that \<open>fit_weights_aggregated\<close> returns has as many entries, each
  non-negative, and they sum to 1; when the clipped coefficients sum to 0 it is the
  uniform vector of 1/n_features. The same for \<open>fit_weights_and_threshold\<close>. Weights
  are reals: the sum is exactly 1.
\<close>

theorem weight_normalization:
  "(lr_fit X y w = Inr (clf_coef, classes, n_iter) \<and> clf_coef \<noteq> [] \<longrightarrow>
      (\<exists>weights. fit_weights_aggregated lr_fit X y w = Inr (weights, classes, n_iter)
         \<and> length weights = length clf_coef
         \<and> (\<forall>x \<in> set weights. 0 \<le> x) \<and> sum_list weights = 1
         \<and> (sum_list (map (\<lambda>c. max c 0) clf_coef) = 0 \<longrightarrow>
              weights = replicate (length clf_coef) (1 / real (length clf_coef)))))
   \<and> (lr_fit2 X2 y2 = Inr clf_coef2 \<and> clf_coef2 \<noteq> [] \<longrightarrow>
      (\<exists>weights thr_w best_f1_w.
           fit_weights_and_threshold lr_fit2 f1_score X2 y2 = Inr (weights, thr_w, best_f1_w)
         \<and> length weights = length clf_coef2
         \<and> (\<forall>x \<in> set weights. 0 \<le> x) \<and> sum_list weights = 1
         \<and> (sum_list (map (\<lambda>c. max c 0) clf_coef2) = 0 \<longrightarrow>
              weights = replicate (length clf_coef2) (1 / real (length clf_coef2)))))"
proof (intro conjI impI)
  assume h: "lr_fit X y w = Inr (clf_coef, classes, n_iter) \<and> clf_coef \<noteq> []"
  let ?c = "map (\<lambda>c. max c 0) clf_coef"
  let ?w = "if sum_list ?c \<le> 0 then map (\<lambda>c. 1 / real (length ?c)) ?c else map (\<lambda>c. c / sum_list ?c) ?c"
  have "fit_weights_aggregated lr_fit X y w = Inr (?w, classes, n_iter)"
    using h by (simp add: fit_weights_aggregated_def and_then_def Let_def)
  moreover from h have ne: "clf_coef \<noteq> []" by blast
  note clip_normalize [OF ne]
  ultimately show "\<exists>weights. fit_weights_aggregated lr_fit X y w = Inr (weights, classes, n_iter)
         \<and> length weights = length clf_coef
         \<and> (\<forall>x \<in> set weights. 0 \<le> x) \<and> sum_list weights = 1
         \<and> (sum_list (map (\<lambda>c. max c 0) clf_coef) = 0 \<longrightarrow>
              weights = replicate (length clf_coef) (1 / real (length clf_coef)))"
    by blast
next
  assume h: "lr_fit2 X2 y2 = Inr clf_coef2 \<and> clf_coef2 \<noteq> []"
  let ?c = "map (\<lambda>c. max c 0) clf_coef2"
  let ?w = "if sum_list ?c \<le> 0 then map (\<lambda>c. 1 / real (length ?c)) ?c else map (\<lambda>c. c / sum_list ?c) ?c"
  have w2: "(if sum_list ?c > 0 then map (\<lambda>c. c / sum_list ?c) ?c else map (\<lambda>c. 1 / real (length ?c)) ?c) = ?w"
    by (simp add: not_less)
  have "\<exists>thr_w best_f1_w. fit_weights_and_threshold lr_fit2 f1_score X2 y2 = Inr (?w, thr_w, best_f1_w)"
    using h unfolding fit_weights_and_threshold_def and_then_def Let_def w2
    by (simp split: prod.splits)
  moreover from h have ne: "clf_coef2 \<noteq> []" by blast
  note clip_normalize [OF ne]
  ultimately show "\<exists>weights thr_w best_f1_w.
           fit_weights_and_threshold lr_fit2 f1_score X2 y2 = Inr (weights, thr_w, best_f1_w)
         \<and> length weights = length clf_coef2
         \<and> (\<forall>x \<in> set weights. 0 \<le> x) \<and> sum_list weights = 1
         \<and> (sum_list (map (\<lambda>c. max c 0) clf_coef2) = 0 \<longrightarrow>
              weights = replicate (length clf_coef2) (1 / real (length clf_coef2)))"
    by blast
qed

theorem weight_normalization_witness:
  "fit_weights_aggregated example_solver [[0, 0, 0], [1, 1, 1]] [0, 1] [100, 50] =
     Inr ([1 / 2, 0, 1 / 2], [0, 1], 7)
   \<and> fit_weights_aggregated example_solver_neg [[0, 0, 0], [1, 1, 1]] [0, 1] [100, 50] =
     Inr ([1 / 3, 1 / 3, 1 / 3], [0, 1], 7)
   \<and> map_sum id fst (fit_weights_and_threshold (\<lambda>X y. Inr [-1, 0, -3]) (\<lambda>a b. 0) [[0, 0, 0]] [0]) =
     Inr [1 / 3, 1 / 3, 1 / 3]"
  using weight_normalization [of example_solver "[[0, 0, 0], [1, 1, 1]]" "[0, 1]" "[100, 50]"
      "[2, -1, 2]" "[0, 1]" 7 "\<lambda>X y. Inr [-1, 0, -3]" "[[0, 0, 0]]" "[0]" "[-1, 0, -3]" "\<lambda>a b. 0"]
  by (simp add: fit_weights_aggregated_def fit_weights_and_threshold_def example_solver_def
      example_solver_neg_def and_then_def Let_def case_prod_beta)

lemma fit_weights_char:
  assumes "8 \<le> length counts"
  shows "fit_weights lr_fit counts =
     (if \<forall>p < 8. fst (counts ! p) \<le> 0 \<and> snd (counts ! p) \<le> 0 then Inl RuntimeError
      else fit_weights_aggregated lr_fit (map fst (design_rows counts [0..<8]))
             (map (\<lambda>r. fst (snd r)) (design_rows counts [0..<8]))
             (map (\<lambda>r. snd (snd r)) (design_rows counts [0..<8])))"
proof (cases "\<forall>p < 8. fst (counts ! p) \<le> 0 \<and> snd (counts ! p) \<le> 0")
  case True
  then have "build_weighted_design counts = Inl RuntimeError"
    by (simp only: build_weighted_design_char [OF assms] if_P [OF True] if_True if_False)
  then show ?thesis by (simp only: fit_weights_def and_then_def sum.case if_P [OF True] if_True if_False)
next
  case False
  then have "build_weighted_design counts =
      Inr (map fst (design_rows counts [0..<8]), map (\<lambda>r. fst (snd r)) (design_rows counts [0..<8]),
           map (\<lambda>r. snd (snd r)) (design_rows counts [0..<8]))"
    by (simp only: build_weighted_design_char [OF assms] if_not_P [OF False] if_True if_False)
  then show ?thesis
    by (simp only: fit_weights_def and_then_def sum.case if_not_P [OF False] prod.case if_True if_False)
qed

lemma design_rows_weights_pos: "\<forall>r \<in> set (design_rows counts ps). 0 < snd (snd r)"
  by (induction ps) (auto simp: design_rows_Cons)

lemma design_rows_labels:
  "l \<in> set (map (\<lambda>r. fst (snd r)) (design_rows counts ps)) \<longleftrightarrow>
     (l = 0 \<and> (\<exists>p \<in> set ps. 0 < fst (counts ! p))) \<or> (l = 1 \<and> (\<exists>p \<in> set ps. 0 < snd (counts ! p)))"
  by (induction ps) (auto simp: design_rows_Cons)

lemma fit_weights_aggregated_Inl:
  "fit_weights_aggregated lr_fit X y w = Inl e \<longleftrightarrow> lr_fit X y w = Inl e"
  by (cases "lr_fit X y w") (auto simp: fit_weights_aggregated_def and_then_def Let_def split: prod.splits)

text \<open>
  C6, as amended. For an 8-row histogram, \<open>build_weighted_design\<close> raises exactly when
  no cell is positive (for non-negative counts: exactly when the total count is zero), the error
  is \<open>RuntimeError\<close>, and fitting the weights then raises it too. With a positive cell
  the design is built: it is not empty, has at most 16 rows and positive sample weights, its
  labels are 0 and 1 only, and label 0 (label 1) occurs in it exactly when some label-0
  (label-1) cell is positive. On that design fitting the weights raises exactly the errors that
  the logistic fit raises, and returns a weight vector whenever the logistic fit returns its
  coefficients.
\<close>

theorem empty_histogram_failure:
  "length counts = 8 \<longrightarrow>
     ((\<exists>e. build_weighted_design counts = Inl e) \<longleftrightarrow> (\<forall>c \<in> set counts. fst c \<le> 0 \<and> snd c \<le> 0))
   \<and> (build_weighted_design counts = Inl err \<longrightarrow> err = RuntimeError)
   \<and> ((\<forall>c \<in> set counts. 0 \<le> fst c \<and> 0 \<le> snd c) \<longrightarrow>
        ((\<exists>e. build_weighted_design counts = Inl e) \<longleftrightarrow> sum_list (map (\<lambda>c. fst c + snd c) counts) = 0))
   \<and> ((\<forall>c \<in> set counts. fst c \<le> 0 \<and> snd c \<le> 0) \<longrightarrow> fit_weights lr_fit counts = Inl RuntimeError)
   \<and> ((\<exists>c \<in> set counts. 0 < fst c \<or> 0 < snd c) \<longrightarrow>
        (\<exists>X y w. build_weighted_design counts = Inr (X, y, w)
           \<and> X \<noteq> [] \<and> length X \<le> 16 \<and> length y = length X \<and> length w = length X
           \<and> (\<forall>x \<in> set w. 0 < x)
           \<and> (0 \<in> set y \<longleftrightarrow> (\<exists>c \<in> set counts. 0 < fst c))
           \<and> (1 \<in> set y \<longleftrightarrow> (\<exists>c \<in> set counts. 0 < snd c))
           \<and> (\<forall>l \<in> set y. l = 0 \<or> l = 1)
           \<and> fit_weights lr_fit counts = fit_weights_aggregated lr_fit X y w
           \<and> (\<forall>e. fit_weights lr_fit counts = Inl e \<longleftrightarrow> lr_fit X y w = Inl e)
           \<and> (\<forall>coef cl it. lr_fit X y w = Inr (coef, cl, it) \<longrightarrow>
                (\<exists>weights. fit_weights lr_fit counts = Inr (weights, cl, it)))))"
proof (intro impI)
  assume len: "length counts = 8"
  then have len8: "8 \<le> length counts" by simp
  let ?none = "\<forall>p < 8. fst (counts ! p) \<le> 0 \<and> snd (counts ! p) \<le> 0"
  let ?rows = "design_rows counts [0..<8]"
  have none_iff: "?none \<longleftrightarrow> (\<forall>c \<in> set counts. fst c \<le> 0 \<and> snd c \<le> 0)"
    using len by (simp add: all_set_conv_all_nth)
  have bwd: "build_weighted_design counts =
     (if ?none then Inl RuntimeError
      else Inr (map fst ?rows, map (\<lambda>r. fst (snd r)) ?rows, map (\<lambda>r. snd (snd r)) ?rows))"
    by (rule build_weighted_design_char [OF len8])
  have c1: "(\<exists>e. build_weighted_design counts = Inl e) \<longleftrightarrow> (\<forall>c \<in> set counts. fst c \<le> 0 \<and> snd c \<le> 0)"
    unfolding bwd none_iff [symmetric] by simp
  have c2: "build_weighted_design counts = Inl err \<longrightarrow> err = RuntimeError"
    unfolding bwd by (simp split: if_splits)
  have c3: "(\<forall>c \<in> set counts. 0 \<le> fst c \<and> 0 \<le> snd c) \<longrightarrow>
        ((\<exists>e. build_weighted_design counts = Inl e) \<longleftrightarrow> sum_list (map (\<lambda>c. fst c + snd c) counts) = 0)"
  proof
    assume nn: "\<forall>c \<in> set counts. 0 \<le> fst c \<and> 0 \<le> snd c"
    then have "sum_list (map (\<lambda>c. fst c + snd c) counts) = 0
        \<longleftrightarrow> (\<forall>x \<in> set (map (\<lambda>c. fst c + snd c) counts). x = 0)"
      by (intro sum_list_nonneg_eq_0_iff) auto
    also have "\<dots> \<longleftrightarrow> (\<forall>c \<in> set counts. fst c \<le> 0 \<and> snd c \<le> 0)"
      using nn by fastforce
    finally show "(\<exists>e. build_weighted_design counts = Inl e) \<longleftrightarrow> sum_list (map (\<lambda>c. fst c + snd c) counts) = 0"
      using c1 by simp
  qed
  have c4: "(\<forall>c \<in> set counts. fst c \<le> 0 \<and> snd c \<le> 0) \<longrightarrow> fit_weights lr_fit counts = Inl RuntimeError"
    unfolding none_iff [symmetric] by (simp add: fit_weights_char [OF len8] if_P)
  have c5: "(\<exists>c \<in> set counts. 0 < fst c \<or> 0 < snd c) \<longrightarrow>
        (\<exists>X y w. build_weighted_design counts = Inr (X, y, w)
           \<and> X \<noteq> [] \<and> length X \<le> 16 \<and> length y = length X \<and> length w = length X
           \<and> (\<forall>x \<in> set w. 0 < x)
           \<and> (0 \<in> set y \<longleftrightarrow> (\<exists>c \<in> set counts. 0 < fst c))
           \<and> (1 \<in> set y \<longleftrightarrow> (\<exists>c \<in> set counts. 0 < snd c))
           \<and> (\<forall>l \<in> set y. l = 0 \<or> l = 1)
           \<and> fit_weights lr_fit counts = fit_weights_aggregated lr_fit X y w
           \<and> (\<forall>e. fit_weights lr_fit counts = Inl e \<longleftrightarrow> lr_fit X y w = Inl e)
           \<and> (\<forall>coef cl it. lr_fit X y w = Inr (coef, cl, it) \<longrightarrow>
                (\<exists>weights. fit_weights lr_fit counts = Inr (weights, cl, it))))"
  proof
    assume "\<exists>c \<in> set counts. 0 < fst c \<or> 0 < snd c"
    then have nn: "\<not> ?none" unfolding none_iff by force
    let ?X = "map fst ?rows" and ?y = "map (\<lambda>r. fst (snd r)) ?rows" and ?w = "map (\<lambda>r. snd (snd r)) ?rows"
    have b: "build_weighted_design counts = Inr (?X, ?y, ?w)" using nn by (simp add: bwd)
    have ne: "?X \<noteq> []" using nn design_rows_empty [of counts "[0..<8]"] by auto
    have le: "length ?X \<le> 16" using length_design_rows [of counts "[0..<8]"] by simp
    have wp: "\<forall>x \<in> set ?w. 0 < x" using design_rows_weights_pos [of counts "[0..<8]"] by auto
    have ex_nth: "(\<exists>p \<in> set [0..<8]. P (counts ! p)) \<longleftrightarrow> (\<exists>c \<in> set counts. P c)" for P
    proof
      assume "\<exists>p \<in> set [0..<8]. P (counts ! p)"
      then obtain p where "p < 8" and "P (counts ! p)" by auto
      then show "\<exists>c \<in> set counts. P c" using len nth_mem [of p counts] by auto
    next
      assume "\<exists>c \<in> set counts. P c"
      then obtain c where "c \<in> set counts" and pc: "P c" by blast
      then obtain i where "i < length counts" and "counts ! i = c" by (metis in_set_conv_nth)
      then show "\<exists>p \<in> set [0..<8]. P (counts ! p)" using len pc by auto
    qed
    have ex0: "(\<exists>p \<in> set [0..<8]. 0 < fst (counts ! p)) \<longleftrightarrow> (\<exists>c \<in> set counts. 0 < fst c)"
      by (rule ex_nth)
    have ex1: "(\<exists>p \<in> set [0..<8]. 0 < snd (counts ! p)) \<longleftrightarrow> (\<exists>c \<in> set counts. 0 < snd c)"
      by (rule ex_nth)
    have l0: "0 \<in> set ?y \<longleftrightarrow> (\<exists>c \<in> set counts. 0 < fst c)"
      unfolding design_rows_labels ex0 by simp
    have l1: "1 \<in> set ?y \<longleftrightarrow> (\<exists>c \<in> set counts. 0 < snd c)"
      unfolding design_rows_labels ex1 by simp
    have l01: "\<forall>l \<in> set ?y. l = 0 \<or> l = 1"
      using design_rows_labels [of _ counts "[0..<8]"] by blast
    have f: "fit_weights lr_fit counts = fit_weights_aggregated lr_fit ?X ?y ?w"
      by (simp only: fit_weights_char [OF len8] if_not_P [OF nn] if_True if_False)
    have fe: "\<forall>e. fit_weights lr_fit counts = Inl e \<longleftrightarrow> lr_fit ?X ?y ?w = Inl e"
      unfolding f by (simp add: fit_weights_aggregated_Inl)
    have r: "\<forall>coef cl it. lr_fit ?X ?y ?w = Inr (coef, cl, it) \<longrightarrow>
                (\<exists>weights. fit_weights lr_fit counts = Inr (weights, cl, it))"
      unfolding f by (simp add: fit_weights_aggregated_def and_then_def Let_def)
    show "\<exists>X y w. build_weighted_design counts = Inr (X, y, w)
           \<and> X \<noteq> [] \<and> length X \<le> 16 \<and> length y = length X \<and> length w = length X
           \<and> (\<forall>x \<in> set w. 0 < x)
           \<and> (0 \<in> set y \<longleftrightarrow> (\<exists>c \<in> set counts. 0 < fst c))
           \<and> (1 \<in> set y \<longleftrightarrow> (\<exists>c \<in> set counts. 0 < snd c))
           \<and> (\<forall>l \<in> set y. l = 0 \<or> l = 1)
           \<and> fit_weights lr_fit counts = fit_weights_aggregated lr_fit X y w
           \<and> (\<forall>e. fit_weights lr_fit counts = Inl e \<longleftrightarrow> lr_fit X y w = Inl e)
           \<and> (\<forall>coef cl it. lr_fit X y w = Inr (coef, cl, it) \<longrightarrow>
                (\<exists>weights. fit_weights lr_fit counts = Inr (weights, cl, it)))"
      using b ne le wp l0 l1 l01 f fe r
      by (intro exI [of _ ?X] exI [of _ ?y] exI [of _ ?w]) simp
  qed
  show "((\<exists>e. build_weighted_design counts = Inl e) \<longleftrightarrow> (\<forall>c \<in> set counts. fst c \<le> 0 \<and> snd c \<le> 0))
   \<and> (build_weighted_design counts = Inl err \<longrightarrow> err = RuntimeError)
   \<and> ((\<forall>c \<in> set counts. 0 \<le> fst c \<and> 0 \<le> snd c) \<longrightarrow>
        ((\<exists>e. build_weighted_design counts = Inl e) \<longleftrightarrow> sum_list (map (\<lambda>c. fst c + snd c) counts) = 0))
   \<and> ((\<forall>c \<in> set counts. fst c \<le> 0 \<and> snd c \<le> 0) \<longrightarrow> fit_weights lr_fit counts = Inl RuntimeError)
   \<and> ((\<exists>c \<in> set counts. 0 < fst c \<or> 0 < snd c) \<longrightarrow>
        (\<exists>X y w. build_weighted_design counts = Inr (X, y, w)
           \<and> X \<noteq> [] \<and> length X \<le> 16 \<and> length y = length X \<and> length w = length X
           \<and> (\<forall>x \<in> set w. 0 < x)
           \<and> (0 \<in> set y \<longleftrightarrow> (\<exists>c \<in> set counts. 0 < fst c))
           \<and> (1 \<in> set y \<longleftrightarrow> (\<exists>c \<in> set counts. 0 < snd c))
           \<and> (\<forall>l \<in> set y. l = 0 \<or> l = 1)
           \<and> fit_weights lr_fit counts = fit_weights_aggregated lr_fit X y w
           \<and> (\<forall>e. fit_weights lr_fit counts = Inl e \<longleftrightarrow> lr_fit X y w = Inl e)
           \<and> (\<forall>coef cl it. lr_fit X y w = Inr (coef, cl, it) \<longrightarrow>
                (\<exists>weights. fit_weights lr_fit counts = Inr (weights, cl, it)))))"
    using c1 c2 c3 c4 c5 by blast
qed

theorem empty_histogram_failure_witness:
  "build_weighted_design (replicate 8 (0, 0)) = Inl RuntimeError
   \<and> fit_weights example_solver (replicate 8 (0, 0)) = Inl RuntimeError
   \<and> build_weighted_design scenario_counts = Inr ([[0, 0, 0], [1, 1, 1]], [0, 1], [100, 50])
   \<and> fit_weights example_solver scenario_counts = Inr ([1 / 2, 0, 1 / 2], [0, 1], 7)
   \<and> fit_weights single_class_solver scenario_counts = Inr ([1 / 3, 1 / 3, 1 / 3], [0, 1], 1)"
proof -
  have a: "build_weighted_design (replicate 8 (0, 0)) = Inl RuntimeError" by code_simp
  have b: "fit_weights example_solver (replicate 8 (0, 0)) = Inl RuntimeError" by code_simp
  have c: "build_weighted_design scenario_counts = Inr ([[0, 0, 0], [1, 1, 1]], [0, 1], [100, 50])"
    by code_simp
  have d: "fit_weights example_solver scenario_counts = Inr ([1 / 2, 0, 1 / 2], [0, 1], 7)"
    by code_simp
  have e: "fit_weights single_class_solver scenario_counts = Inr ([1 / 3, 1 / 3, 1 / 3], [0, 1], 1)"
    by code_simp
  show ?thesis
    using a b c d e
      empty_histogram_failure [of "replicate 8 (0, 0)" RuntimeError example_solver]
      empty_histogram_failure [of scenario_counts RuntimeError example_solver]
    by simp
qed

text \<open>
  C6 as stated fails for the fit: a histogram with a positive total and label-0 cells only
  gives a design with one class, on which the logistic fit raises \<open>ValueError\<close>, and
  \<open>fit_weights\<close> hands the error on instead of returning a weight vector.
\<close>

theorem empty_histogram_failure_counterexample:
  "build_weighted_design only_label0 = Inr ([[0, 0, 0], [1, 1, 1]], [0, 0], [100, 3])
   \<and> fit_weights single_class_solver only_label0 = Inl ValueError"
proof -
  have a: "build_weighted_design only_label0 = Inr ([[0, 0, 0], [1, 1, 1]], [0, 0], [100, 3])"
    by code_simp
  have b: "fit_weights single_class_solver only_label0 = Inl ValueError" by code_simp
  show ?thesis using a b by simp
qed


section \<open>Threshold selection\<close>

lemma hd_filter_upt:
  "\<exists>i < n. P i \<Longrightarrow>
   hd (filter P [0..<n]) < n \<and> P (hd (filter P [0..<n])) \<and> (\<forall>k < hd (filter P [0..<n]). \<not> P k)"
proof (induction n)
  case 0
  then show ?case by simp
next
  case (Suc n)
  have app: "filter P [0..<Suc n] = filter P [0..<n] @ (if P n then [n] else [])" by simp
  show ?case
  proof (cases "\<exists>i < n. P i")
    case True
    then have ne: "filter P [0..<n] \<noteq> []" by (auto simp: filter_empty_conv)
    have eq: "hd (filter P [0..<Suc n]) = hd (filter P [0..<n])"
      unfolding app using ne by (rule hd_append2)
    from Suc.IH [OF True] have "hd (filter P [0..<n]) < Suc n" by (blast intro: less_SucI)
    with Suc.IH [OF True] show ?thesis unfolding eq by blast
  next
    case False
    then have e: "filter P [0..<n] = []" by (auto simp: filter_empty_conv)
    from Suc.prems obtain i where i: "i < Suc n" "P i" by blast
    with False have "i = n" by (metis less_antisym)
    with i have pn: "P n" by simp
    have eq: "hd (filter P [0..<Suc n]) = n" unfolding app e using pn by simp
    show ?thesis unfolding eq using pn False by blast
  qed
qed

lemma list_has_max: "xs \<noteq> [] \<Longrightarrow> \<exists>i < length xs. \<forall>v \<in> set xs. v \<le> (xs ! i :: real)"
proof -
  assume "xs \<noteq> []"
  then have "Max (set xs) \<in> set xs" by (intro Max_in) simp_all
  then obtain i where "i < length xs" "xs ! i = Max (set xs)" by (auto simp: in_set_conv_nth)
  then show ?thesis by (intro exI [of _ i]) simp
qed

lemma list_has_min: "xs \<noteq> [] \<Longrightarrow> \<exists>i < length xs. \<forall>v \<in> set xs. (xs ! i :: real) \<le> v"
proof -
  assume "xs \<noteq> []"
  then have "Min (set xs) \<in> set xs" by (intro Min_in) simp_all
  then obtain i where "i < length xs" "xs ! i = Min (set xs)" by (auto simp: in_set_conv_nth)
  then show ?thesis by (intro exI [of _ i]) simp
qed

lemma argmax_char:
  assumes "xs \<noteq> []"
  shows "\<exists>i. argmax xs = Inr i \<and> i < length xs \<and> (\<forall>k < length xs. xs ! k \<le> xs ! i)
           \<and> (\<forall>k < i. xs ! k < xs ! i)"
proof -
  let ?P = "\<lambda>i. \<forall>v \<in> set xs. v \<le> xs ! i"
  let ?i = "hd (filter ?P [0..<length xs])"
  from hd_filter_upt [OF list_has_max [OF assms]]
  have i: "?i < length xs" "?P ?i" "\<forall>k < ?i. \<not> ?P k" by blast+
  have "\<forall>k < ?i. xs ! k < xs ! ?i"
  proof (intro allI impI)
    fix k assume k: "k < ?i"
    with i(3) obtain v where v: "v \<in> set xs" "\<not> v \<le> xs ! k" by blast
    with i(2) have "v \<le> xs ! ?i" by blast
    with v(2) show "xs ! k < xs ! ?i" by simp
  qed
  moreover have "\<forall>k < length xs. xs ! k \<le> xs ! ?i" using i(2) by simp
  moreover have "argmax xs = Inr ?i" using assms by (simp add: argmax_def)
  ultimately show ?thesis using i(1) by blast
qed

lemma argmin_char:
  assumes "xs \<noteq> []"
  shows "\<exists>i. argmin xs = Inr i \<and> i < length xs \<and> (\<forall>k < length xs. xs ! i \<le> xs ! k)
           \<and> (\<forall>k < i. xs ! i < xs ! k)"
proof -
  let ?P = "\<lambda>i. \<forall>v \<in> set xs. xs ! i \<le> v"
  let ?i = "hd (filter ?P [0..<length xs])"
  from hd_filter_upt [OF list_has_min [OF assms]]
  have i: "?i < length xs" "?P ?i" "\<forall>k < ?i. \<not> ?P k" by blast+
  have "\<forall>k < ?i. xs ! ?i < xs ! k"
  proof (intro allI impI)
    fix k assume k: "k < ?i"
    with i(3) obtain v where v: "v \<in> set xs" "\<not> xs ! k \<le> v" by blast
    with i(2) have "xs ! ?i \<le> v" by blast
    with v(2) show "xs ! ?i < xs ! k" by simp
  qed
  moreover have "\<forall>k < length xs. xs ! ?i \<le> xs ! k" using i(2) by simp
  moreover have "argmin xs = Inr ?i" using assms by (simp add: argmin_def)
  ultimately show ?thesis using i(1) by blast
qed

lemma for_each_total: "for_each (\<lambda>i. Inr (g i)) xs = Inr (map g xs)"
  by (induction xs) (simp_all add: and_then_def)

lemma for_each_cong: "(\<And>x. x \<in> set xs \<Longrightarrow> f x = g x) \<Longrightarrow> for_each f xs = for_each g xs"
  by (induction xs) simp_all

lemma recall_threshold_char:
  assumes lens: "length fpr_a = length tpr_a" "length thr_a = length tpr_a"
      and xy: "length y = length x"
  shows "\<exists>outcome. recall_threshold fpr_a tpr_a thr_a y x target = Inr (target, outcome)
     \<and> (if \<exists>i < length tpr_a. tpr_a ! i \<ge> target
         then \<exists>sub m. sub < length tpr_a \<and> tpr_a ! sub \<ge> target
                \<and> (\<forall>i < length tpr_a. tpr_a ! i \<ge> target \<longrightarrow> fpr_a ! sub \<le> fpr_a ! i)
                \<and> metrics_at_threshold y x (thr_a ! sub) = Inr m \<and> sample_spec y x (thr_a ! sub) m
                \<and> outcome = Reachable m
         else outcome = Unreachable)"
proof -
  let ?idx = "filter (\<lambda>i. tpr_a ! i \<ge> target) [0..<length tpr_a]"
  show ?thesis
  proof (cases "?idx = []")
    case True
    then have none: "\<not> (\<exists>i < length tpr_a. tpr_a ! i \<ge> target)"
      by (auto simp: filter_empty_conv)
    have "recall_threshold fpr_a tpr_a thr_a y x target = Inr (target, Unreachable)"
      using True by (simp add: recall_threshold_def)
    then show ?thesis using none by simp
  next
    case False
    then have some: "\<exists>i < length tpr_a. tpr_a ! i \<ge> target"
      by (auto simp: filter_empty_conv)
    have in_idx: "\<And>i. i \<in> set ?idx \<longleftrightarrow> i < length tpr_a \<and> tpr_a ! i \<ge> target" by auto
    have fe: "for_each (\<lambda>i. if i < length fpr_a then Inr (fpr_a ! i) else Inl IndexError) ?idx
        = Inr (map (\<lambda>i. fpr_a ! i) ?idx)"
    proof -
      have "for_each (\<lambda>i. if i < length fpr_a then Inr (fpr_a ! i) else Inl IndexError) ?idx
          = for_each (\<lambda>i. Inr (fpr_a ! i)) ?idx"
        by (rule for_each_cong) (simp add: lens)
      then show ?thesis by (simp only: for_each_total)
    qed
    have ne: "map (\<lambda>i. fpr_a ! i) ?idx \<noteq> []" using False by simp
    from argmin_char [OF ne] obtain k where
      k: "argmin (map (\<lambda>i. fpr_a ! i) ?idx) = Inr k" "k < length ?idx"
         "\<forall>j < length ?idx. map (\<lambda>i. fpr_a ! i) ?idx ! k \<le> map (\<lambda>i. fpr_a ! i) ?idx ! j"
      by auto
    let ?sub = "?idx ! k"
    have sub_in: "?sub \<in> set ?idx" using k(2) by (rule nth_mem)
    then have sub: "?sub < length tpr_a" "tpr_a ! ?sub \<ge> target" using in_idx by blast+
    have minimal: "\<forall>i < length tpr_a. tpr_a ! i \<ge> target \<longrightarrow> fpr_a ! ?sub \<le> fpr_a ! i"
    proof (intro allI impI)
      fix i assume "i < length tpr_a" "tpr_a ! i \<ge> target"
      then have "i \<in> set ?idx" using in_idx by blast
      then obtain j where j: "j < length ?idx" "?idx ! j = i" by (metis in_set_conv_nth)
      from k(3) j(1) have "map (\<lambda>i. fpr_a ! i) ?idx ! k \<le> map (\<lambda>i. fpr_a ! i) ?idx ! j" by blast
      then show "fpr_a ! ?sub \<le> fpr_a ! i" using k(2) j by simp
    qed
    from metrics_at_threshold_Inr [OF xy, of "thr_a ! ?sub"] obtain m where
      m: "metrics_at_threshold y x (thr_a ! ?sub) = Inr m" "sample_spec y x (thr_a ! ?sub) m" by blast
    have subthr: "?sub < length thr_a" using sub(1) lens by simp
    have "recall_threshold fpr_a tpr_a thr_a y x target = Inr (target, Reachable m)"
      by (simp only: recall_threshold_def Let_def if_not_P [OF False] fe k(1) and_then_def sum.case
          if_P [OF subthr] m(1))
    then show ?thesis using some sub minimal m by auto
  qed
qed

lemma length_masked:
  "length a = length b \<Longrightarrow> length (map fst (filter snd (zip a (map P b)))) = length (filter P b)"
  by (induction a b rule: list_induct2) simp_all

lemma length_finite_thresholds:
  "length [t. Some t \<leftarrow> thr0] = length (filter (\<lambda>t. t \<noteq> None) thr0)"
  by (induction thr0) (auto split: option.splits)

lemma pick_thresholds_char:
  assumes lens: "length fpr0 = length thr0" "length tpr0 = length thr0"
      and fin: "\<exists>t. Some t \<in> set thr0"
      and xy: "length y = length x"
  shows "\<exists>fpr_a tpr_a thr_a j_idx best_j rec_thrs.
       pick_thresholds (fpr0, tpr0, thr0) y x = Inr ((fpr_a, tpr_a, thr_a), best_j, rec_thrs)
     \<and> fpr_a = map fst (filter snd (zip fpr0 (map (\<lambda>t. t \<noteq> None) thr0)))
     \<and> tpr_a = map fst (filter snd (zip tpr0 (map (\<lambda>t. t \<noteq> None) thr0)))
     \<and> thr_a = [t. Some t \<leftarrow> thr0]
     \<and> length fpr_a = length thr_a \<and> length tpr_a = length thr_a
     \<and> j_idx < length thr_a
     \<and> (\<forall>k < length thr_a. tpr_a ! k - fpr_a ! k \<le> tpr_a ! j_idx - fpr_a ! j_idx)
     \<and> (\<forall>k < j_idx. tpr_a ! k - fpr_a ! k < tpr_a ! j_idx - fpr_a ! j_idx)
     \<and> metrics_at_threshold y x (thr_a ! j_idx) = Inr best_j
     \<and> for_each (recall_threshold fpr_a tpr_a thr_a y x) RECALL_TARGETS = Inr rec_thrs"
proof -
  define fpr_a where "fpr_a = map fst (filter snd (zip fpr0 (map (\<lambda>t. t \<noteq> None) thr0)))"
  define tpr_a where "tpr_a = map fst (filter snd (zip tpr0 (map (\<lambda>t. t \<noteq> None) thr0)))"
  define thr_a where "thr_a = [t. Some t \<leftarrow> thr0]"
  define j where "j = map2 (\<lambda>t f. t - f) tpr_a fpr_a"
  have lthr: "length thr_a = length (filter (\<lambda>t. t \<noteq> None) thr0)"
    unfolding thr_a_def by (rule length_finite_thresholds)
  have lf: "length fpr_a = length thr_a"
    unfolding fpr_a_def lthr using lens(1) by (rule length_masked)
  have lt: "length tpr_a = length thr_a"
    unfolding tpr_a_def lthr using lens(2) by (rule length_masked)
  have "filter (\<lambda>t. t \<noteq> None) thr0 \<noteq> []" using fin by (auto simp: filter_empty_conv)
  then have pos: "0 < length thr_a" unfolding lthr by blast
  have lj: "length j = length thr_a" using lf lt by (simp add: j_def)
  then have ne: "j \<noteq> []" using pos by auto
  from argmax_char [OF ne] obtain j_idx where
    a: "argmax j = Inr j_idx" "j_idx < length j" "\<forall>k < length j. j ! k \<le> j ! j_idx"
       "\<forall>k < j_idx. j ! k < j ! j_idx"
    by blast
  have jn: "\<And>k. k < length thr_a \<Longrightarrow> j ! k = tpr_a ! k - fpr_a ! k"
    using lf lt by (simp add: j_def)
  have jidx: "j_idx < length thr_a" using a(2) lj by simp
  have mx: "\<forall>k < length thr_a. tpr_a ! k - fpr_a ! k \<le> tpr_a ! j_idx - fpr_a ! j_idx"
    using a(3) jn jidx lj by metis
  have first: "\<forall>k < j_idx. tpr_a ! k - fpr_a ! k < tpr_a ! j_idx - fpr_a ! j_idx"
  proof (intro allI impI)
    fix k assume k: "k < j_idx"
    then have "k < length thr_a" using jidx by simp
    then show "tpr_a ! k - fpr_a ! k < tpr_a ! j_idx - fpr_a ! j_idx"
      using a(4) k jn jidx by metis
  qed
  from metrics_at_threshold_Inr [OF xy, of "thr_a ! j_idx"] obtain best_j where
    b: "metrics_at_threshold y x (thr_a ! j_idx) = Inr best_j" by blast
  have rt: "\<And>target. target \<in> set RECALL_TARGETS \<Longrightarrow>
      \<exists>r. recall_threshold fpr_a tpr_a thr_a y x target = Inr r \<and> True"
  proof -
    fix target
    have l1: "length fpr_a = length tpr_a" and l2: "length thr_a = length tpr_a"
      using lf lt by simp_all
    from recall_threshold_char [OF l1 l2 xy, of target]
    obtain outcome where "recall_threshold fpr_a tpr_a thr_a y x target = Inr (target, outcome)"
      by blast
    then show "\<exists>r. recall_threshold fpr_a tpr_a thr_a y x target = Inr r \<and> True" by blast
  qed
  from for_each_Inr [of RECALL_TARGETS "recall_threshold fpr_a tpr_a thr_a y x" "\<lambda>t r. True", OF rt]
  obtain rec_thrs where
    r: "for_each (recall_threshold fpr_a tpr_a thr_a y x) RECALL_TARGETS = Inr rec_thrs" by blast
  have ms1: "mask_select fpr0 (map (\<lambda>t. t \<noteq> None) thr0) = Inr fpr_a"
    and ms2: "mask_select tpr0 (map (\<lambda>t. t \<noteq> None) thr0) = Inr tpr_a"
    using lens by (simp_all add: mask_select_def fpr_a_def tpr_a_def)
  have leq: "length tpr_a = length fpr_a" using lf lt by simp
  have "pick_thresholds (fpr0, tpr0, thr0) y x = Inr ((fpr_a, tpr_a, thr_a), best_j, rec_thrs)"
    by (simp only: pick_thresholds_def prod.case Let_def ms1 ms2 and_then_def sum.case leq
        simp_thms if_False thr_a_def [symmetric] j_def [symmetric] a(1) b r)
  then show ?thesis using lf lt jidx mx first b r fpr_a_def tpr_a_def thr_a_def by blast
qed

lemma for_each_Inr_D: "for_each f xs = Inr rs \<Longrightarrow> list_all2 (\<lambda>x r. f x = Inr r) xs rs"
proof (induction xs arbitrary: rs)
  case Nil
  then show ?case by simp
next
  case (Cons x xs)
  then show ?case by (auto simp: and_then_def split: sum.splits)
qed

lemma recall_entry:
  assumes l1: "length fpr_a = length thr_a" and l2: "length tpr_a = length thr_a"
      and xy: "length y = length x"
      and r: "recall_threshold fpr_a tpr_a thr_a y x target = Inr entry"
  shows "fst entry = target \<and> recall_entry_ok fpr_a tpr_a thr_a y x entry"
proof -
  have a: "length fpr_a = length tpr_a" and b: "length thr_a = length tpr_a" using l1 l2 by simp_all
  from recall_threshold_char [OF a b xy, of target] obtain outcome where
    o: "recall_threshold fpr_a tpr_a thr_a y x target = Inr (target, outcome)"
    and c: "if \<exists>i < length tpr_a. tpr_a ! i \<ge> target
         then \<exists>sub m. sub < length tpr_a \<and> tpr_a ! sub \<ge> target
                \<and> (\<forall>i < length tpr_a. tpr_a ! i \<ge> target \<longrightarrow> fpr_a ! sub \<le> fpr_a ! i)
                \<and> metrics_at_threshold y x (thr_a ! sub) = Inr m \<and> sample_spec y x (thr_a ! sub) m
                \<and> outcome = Reachable m
         else outcome = Unreachable"
    by blast
  from o r have e: "entry = (target, outcome)" by simp
  show ?thesis
  proof (cases "\<exists>i < length tpr_a. tpr_a ! i \<ge> target")
    case True
    with c obtain sub m where "sub < length tpr_a" "tpr_a ! sub \<ge> target"
        "\<forall>i < length tpr_a. tpr_a ! i \<ge> target \<longrightarrow> fpr_a ! sub \<le> fpr_a ! i"
        "metrics_at_threshold y x (thr_a ! sub) = Inr m" "outcome = Reachable m"
      by auto
    then show ?thesis using True unfolding recall_entry_ok_def e l2 [symmetric] by auto
  next
    case False
    with c have "outcome = Unreachable" by simp
    then show ?thesis using False unfolding recall_entry_ok_def e l2 [symmetric] by simp
  qed
qed

text \<open>
  C5. \<open>pick_thresholds\<close> on ROC arrays of one length with a finite threshold, and a
  sample of labels and scores of one length, returns one entry for each recall target.
  When some evaluated threshold (a ROC point with a finite threshold) has
  \<open>tpr >= target\<close>, the entry holds the metrics at such a threshold whose fpr is least
  among them; when none has, the entry is \<open>Unreachable\<close>, which is no metrics record.
  When the ROC arrays hold the rates of the sample, the returned metrics themselves reach
  the target, with the least fpr among the evaluated thresholds that reach it.
\<close>

theorem recall_floor_selection:
  assumes "length fpr0 = length thr0" "length tpr0 = length thr0"
      and "\<exists>t. Some t \<in> set thr0" and "length y = length x"
  shows "\<exists>fpr_a tpr_a thr_a best_j rec_thrs.
       pick_thresholds (fpr0, tpr0, thr0) y x = Inr ((fpr_a, tpr_a, thr_a), best_j, rec_thrs)
     \<and> thr_a = [t. Some t \<leftarrow> thr0] \<and> length fpr_a = length thr_a \<and> length tpr_a = length thr_a
     \<and> map fst rec_thrs = RECALL_TARGETS
     \<and> (\<forall>entry \<in> set rec_thrs. recall_entry_ok fpr_a tpr_a thr_a y x entry)
     \<and> (roc_consistent fpr_a tpr_a thr_a y x \<longrightarrow>
          (\<forall>entry \<in> set rec_thrs. \<forall>m. snd entry = Reachable m \<longrightarrow>
              tpr m \<ge> fst entry
            \<and> (\<forall>i < length thr_a. \<forall>mi. metrics_at_threshold y x (thr_a ! i) = Inr mi \<and> tpr mi \<ge> fst entry
                  \<longrightarrow> fpr m \<le> fpr mi)))"
proof -
  from pick_thresholds_char [OF assms] obtain fpr_a tpr_a thr_a best_j rec_thrs where
    p: "pick_thresholds (fpr0, tpr0, thr0) y x = Inr ((fpr_a, tpr_a, thr_a), best_j, rec_thrs)"
    and t: "thr_a = [t. Some t \<leftarrow> thr0]"
    and l1: "length fpr_a = length thr_a" and l2: "length tpr_a = length thr_a"
    and fe: "for_each (recall_threshold fpr_a tpr_a thr_a y x) RECALL_TARGETS = Inr rec_thrs"
    by blast
  from for_each_Inr_D [OF fe]
  have la: "list_all2 (\<lambda>target r. recall_threshold fpr_a tpr_a thr_a y x target = Inr r) RECALL_TARGETS rec_thrs" .
  then have la': "list_all2 (\<lambda>target r. fst r = target \<and> recall_entry_ok fpr_a tpr_a thr_a y x r) RECALL_TARGETS rec_thrs"
    by (rule list_all2_mono) (rule recall_entry [OF l1 l2 assms(4)])
  then have targets: "map fst rec_thrs = RECALL_TARGETS"
    by (simp add: list_all2_conv_all_nth list_eq_iff_nth_eq)
  have ok: "\<forall>entry \<in> set rec_thrs. recall_entry_ok fpr_a tpr_a thr_a y x entry"
    using la' by (metis list_all2_conv_all_nth in_set_conv_nth)
  have cons: "roc_consistent fpr_a tpr_a thr_a y x \<longrightarrow>
          (\<forall>entry \<in> set rec_thrs. \<forall>m. snd entry = Reachable m \<longrightarrow>
              tpr m \<ge> fst entry
            \<and> (\<forall>i < length thr_a. \<forall>mi. metrics_at_threshold y x (thr_a ! i) = Inr mi \<and> tpr mi \<ge> fst entry
                  \<longrightarrow> fpr m \<le> fpr mi))"
  proof (intro impI ballI allI)
    fix entry m
    assume rc: "roc_consistent fpr_a tpr_a thr_a y x" and en: "entry \<in> set rec_thrs"
      and re: "snd entry = Reachable m"
    from ok en have eo: "recall_entry_ok fpr_a tpr_a thr_a y x entry" by blast
    with re obtain sub where sub: "sub < length thr_a" "tpr_a ! sub \<ge> fst entry"
        "\<forall>i < length thr_a. tpr_a ! i \<ge> fst entry \<longrightarrow> fpr_a ! sub \<le> fpr_a ! i"
        "metrics_at_threshold y x (thr_a ! sub) = Inr m"
      unfolding recall_entry_ok_def by (auto split: if_splits)
    from rc sub(1) sub(4) have ms: "tpr m = tpr_a ! sub" "fpr m = fpr_a ! sub"
      unfolding roc_consistent_def by blast+
    show "tpr m \<ge> fst entry
            \<and> (\<forall>i < length thr_a. \<forall>mi. metrics_at_threshold y x (thr_a ! i) = Inr mi \<and> tpr mi \<ge> fst entry
                  \<longrightarrow> fpr m \<le> fpr mi)"
    proof (intro conjI allI impI)
      show "tpr m \<ge> fst entry" using ms(1) sub(2) by simp
    next
      fix i mi
      assume i: "i < length thr_a" and mi: "metrics_at_threshold y x (thr_a ! i) = Inr mi \<and> tpr mi \<ge> fst entry"
      from rc i mi have "tpr mi = tpr_a ! i" "fpr mi = fpr_a ! i"
        unfolding roc_consistent_def by blast+
      with mi sub(3) i show "fpr m \<le> fpr mi" using ms(2) by simp
    qed
  qed
  show ?thesis using p t l1 l2 targets ok cons by blast
qed

lemma sample_roc_consistent:
  "roc_consistent [0, 0.5, 0.5, 1] [0.5, 0.5, 1, 1] [0.9, 0.6, 0.4, 0.1] sample_y sample_x"
proof -
  have m0: "metrics_at_threshold sample_y sample_x 0.9 =
      Inr \<lparr> threshold = 0.9, tp = 1, fp = 0, tn = 2, fn = 1, tpr = 0.5, fpr = 0, precision = 1 \<rparr>"
    by code_simp
  have m1: "metrics_at_threshold sample_y sample_x 0.6 =
      Inr \<lparr> threshold = 0.6, tp = 1, fp = 1, tn = 1, fn = 1, tpr = 0.5, fpr = 0.5, precision = 0.5 \<rparr>"
    by code_simp
  have m2: "metrics_at_threshold sample_y sample_x 0.4 =
      Inr \<lparr> threshold = 0.4, tp = 2, fp = 1, tn = 1, fn = 0, tpr = 1, fpr = 0.5, precision = 2 / 3 \<rparr>"
    by code_simp
  have m3: "metrics_at_threshold sample_y sample_x 0.1 =
      Inr \<lparr> threshold = 0.1, tp = 2, fp = 2, tn = 0, fn = 0, tpr = 1, fpr = 1, precision = 0.5 \<rparr>"
    by code_simp
  have cases: "\<And>i::nat. i < 4 \<Longrightarrow> i = 0 \<or> i = 1 \<or> i = 2 \<or> i = 3" by arith
  show ?thesis
    unfolding roc_consistent_def
  proof (intro allI impI)
    fix i mi
    assume i: "i < length [0.9, 0.6, 0.4, 0.1 :: real]"
      and mi: "metrics_at_threshold sample_y sample_x ([0.9, 0.6, 0.4, 0.1] ! i) = Inr mi"
    from i have "i = 0 \<or> i = 1 \<or> i = 2 \<or> i = 3" using cases by simp
    then show "tpr mi = [0.5, 0.5, 1, 1] ! i \<and> fpr mi = [0, 0.5, 0.5, 1] ! i"
      using mi m0 m1 m2 m3 by auto
  qed
qed

theorem recall_floor_selection_witness:
  "map_sum id (\<lambda>r. snd (snd r)) (pick_thresholds sample_roc sample_y sample_x) =
     Inr [(0.95, Reachable \<lparr> threshold = 0.4, tp = 2, fp = 1, tn = 1, fn = 0,
                              tpr = 1, fpr = 0.5, precision = 2 / 3 \<rparr>),
          (0.99, Reachable \<lparr> threshold = 0.4, tp = 2, fp = 1, tn = 1, fn = 0,
                              tpr = 1, fpr = 0.5, precision = 2 / 3 \<rparr>)]
   \<and> map_sum id (\<lambda>r. snd (snd r)) (pick_thresholds negatives_roc negatives_y negatives_x) =
     Inr [(0.95, Unreachable), (0.99, Unreachable)]
   \<and> roc_consistent [0, 0.5, 0.5, 1] [0.5, 0.5, 1, 1] [0.9, 0.6, 0.4, 0.1] sample_y sample_x"
proof -
  have a: "map_sum id (\<lambda>r. snd (snd r)) (pick_thresholds sample_roc sample_y sample_x) =
     Inr [(0.95, Reachable \<lparr> threshold = 0.4, tp = 2, fp = 1, tn = 1, fn = 0,
                              tpr = 1, fpr = 0.5, precision = 2 / 3 \<rparr>),
          (0.99, Reachable \<lparr> threshold = 0.4, tp = 2, fp = 1, tn = 1, fn = 0,
                              tpr = 1, fpr = 0.5, precision = 2 / 3 \<rparr>)]"
    by code_simp
  have b: "map_sum id (\<lambda>r. snd (snd r)) (pick_thresholds negatives_roc negatives_y negatives_x) =
     Inr [(0.95, Unreachable), (0.99, Unreachable)]"
    by code_simp
  have h: "length [0, 0, 0.5, 0.5, 1 :: real] = length [None, Some 0.9, Some 0.6, Some 0.4, Some (0.1 :: real)]"
    "length [0, 0.5, 0.5, 1, 1 :: real] = length [None, Some 0.9, Some 0.6, Some 0.4, Some (0.1 :: real)]"
    "\<exists>t. Some t \<in> set [None, Some 0.9, Some 0.6, Some 0.4, Some (0.1 :: real)]"
    "length sample_y = length sample_x"
    by (simp_all add: sample_y_def sample_x_def exI [of _ "0.9"])
  show ?thesis
    using a b sample_roc_consistent recall_floor_selection [OF h]
    by simp
qed

lemma auto_thresholds_value:
  "auto_thresholds = [0, 0.0884, 0.2946, 0.3830, 0.6170, 0.7054, 0.9116, 1]"
  by (simp add: auto_thresholds_def SCORES_BY_PATTERN_def W_SM_def W_CR_def W_PH_def)

lemma main_thresholds_props:
  "sorted (main_thresholds extra)" "distinct (main_thresholds extra)"
  "set (main_thresholds extra) = set SCORES_BY_PATTERN \<union> set extra"
  by (auto simp: main_thresholds_def auto_thresholds_def Let_def)

lemma main_thresholds_nonempty: "main_thresholds extra \<noteq> []"
proof -
  have "set (main_thresholds extra) \<noteq> {}"
    by (simp add: main_thresholds_props(3) SCORES_BY_PATTERN_def)
  then show ?thesis by auto
qed

lemma masked_all:
  "length a = length m \<Longrightarrow> \<forall>b \<in> set m. b \<Longrightarrow> map fst (filter snd (zip a m)) = a"
  by (induction a m rule: list_induct2) auto

text \<open>
  C3, as amended. In evaluate.py the thresholds evaluated are the distinct per-pattern
  scores in ascending order, with the \<open>--threshold\<close> arguments merged in, and nothing
  else: with the fixed weights and no argument they are 8, the lowest (the minimum score)
  predicts every record positive and none is above the maximum score. The row reported is
  the first in that order whose youdenJ is greatest among the rows evaluated, so that a
  tie goes to the lowest threshold. In find_threshold.py \<open>pick_thresholds\<close> takes the
  first ROC point, in the order of the ROC arrays, whose \<open>tpr - fpr\<close> is greatest among
  the points with a finite threshold.
\<close>

theorem youden_selection:
  "(length counts = 8 \<longrightarrow>
      (\<exists>rows best i.
          eval_thresholds_from_counts counts (main_thresholds extra) = Inr rows
        \<and> main_best_youden counts extra = Inr (Some best)
        \<and> sorted (main_thresholds extra) \<and> distinct (main_thresholds extra)
        \<and> set (main_thresholds extra) = set SCORES_BY_PATTERN \<union> set extra
        \<and> length rows = length (main_thresholds extra)
        \<and> (\<forall>k < length rows. threshold (rows ! k) = main_thresholds extra ! k)
        \<and> i < length rows \<and> best = rows ! i
        \<and> (\<forall>k < length rows. youdenJ (rows ! k) \<le> youdenJ best)
        \<and> (\<forall>k < i. youdenJ (rows ! k) < youdenJ best)
        \<and> (\<forall>k < length rows. youdenJ (rows ! k) = youdenJ best \<longrightarrow> threshold best \<le> threshold (rows ! k))
        \<and> (extra = [] \<longrightarrow>
              length rows = 8
            \<and> tp (rows ! 0) = sample_pos (rows ! 0) \<and> fp (rows ! 0) = sample_neg (rows ! 0)
            \<and> (\<forall>k < length rows. threshold (rows ! k) \<le> W_SM + W_CR + W_PH))))
   \<and> (length fpr0 = length thr0 \<and> length tpr0 = length thr0 \<and> (\<exists>t. Some t \<in> set thr0)
       \<and> length y = length x \<longrightarrow>
      (\<exists>fpr_a tpr_a thr_a j_idx best_j rec_thrs.
          pick_thresholds (fpr0, tpr0, thr0) y x = Inr ((fpr_a, tpr_a, thr_a), best_j, rec_thrs)
        \<and> thr_a = [t. Some t \<leftarrow> thr0] \<and> length fpr_a = length thr_a \<and> length tpr_a = length thr_a
        \<and> j_idx < length thr_a
        \<and> (\<forall>k < length thr_a. tpr_a ! k - fpr_a ! k \<le> tpr_a ! j_idx - fpr_a ! j_idx)
        \<and> (\<forall>k < j_idx. tpr_a ! k - fpr_a ! k < tpr_a ! j_idx - fpr_a ! j_idx)
        \<and> metrics_at_threshold y x (thr_a ! j_idx) = Inr best_j))"
proof (intro conjI impI)
  assume len: "length counts = 8"
  let ?thrs = "main_thresholds extra"
  from eval_thresholds_Inr [OF len, of ?thrs] obtain rows where
    ev: "eval_thresholds_from_counts counts ?thrs = Inr rows" and
    sp: "list_all2 (row_spec SCORES_BY_PATTERN (map snd counts) (map fst counts)) ?thrs rows"
    by blast
  have lr: "length rows = length ?thrs" using sp by (simp add: list_all2_lengthD)
  have rs: "\<And>k. k < length rows \<Longrightarrow> row_spec SCORES_BY_PATTERN (map snd counts) (map fst counts) (?thrs ! k) (rows ! k)"
    using sp by (simp add: list_all2_conv_all_nth)
  then have th: "\<forall>k < length rows. threshold (rows ! k) = ?thrs ! k"
    by (simp add: row_spec_def)
  have ne: "rows \<noteq> []" using lr main_thresholds_nonempty [of extra] by auto
  then have nej: "map youdenJ rows \<noteq> []" by simp
  from argmax_char [OF nej] obtain i where
    a: "argmax (map youdenJ rows) = Inr i" "i < length rows"
       "\<forall>k < length rows. youdenJ (rows ! k) \<le> youdenJ (rows ! i)"
       "\<forall>k < i. youdenJ (rows ! k) < youdenJ (rows ! i)"
    by auto
  have best: "main_best_youden counts extra = Inr (Some (rows ! i))"
    using ne by (simp add: main_best_youden_def Let_def ev a(1) and_then_def)
  have ties: "\<forall>k < length rows. youdenJ (rows ! k) = youdenJ (rows ! i) \<longrightarrow> threshold (rows ! i) \<le> threshold (rows ! k)"
  proof (intro allI impI)
    fix k assume k: "k < length rows" and e: "youdenJ (rows ! k) = youdenJ (rows ! i)"
    have "\<not> k < i" using a(4) e by force
    then have "i \<le> k" by simp
    then have "?thrs ! i \<le> ?thrs ! k"
      using main_thresholds_props(1) [of extra] k lr by (simp add: sorted_nth_mono)
    then show "threshold (rows ! i) \<le> threshold (rows ! k)" using th k a(2) by simp
  qed
  have dflt: "extra = [] \<longrightarrow>
              length rows = 8
            \<and> tp (rows ! 0) = sample_pos (rows ! 0) \<and> fp (rows ! 0) = sample_neg (rows ! 0)
            \<and> (\<forall>k < length rows. threshold (rows ! k) \<le> W_SM + W_CR + W_PH)"
  proof
    assume e: "extra = []"
    then have t: "?thrs = [0, 0.0884, 0.2946, 0.3830, 0.6170, 0.7054, 0.9116, 1]"
      by (simp add: main_thresholds_def auto_thresholds_value)
    then have l8: "length rows = 8" using lr by simp
    have r0: "row_spec SCORES_BY_PATTERN (map snd counts) (map fst counts) 0 (rows ! 0)"
      using rs [of 0] l8 t by simp
    have all: "\<forall>b \<in> set (map (\<lambda>v. v \<ge> 0) SCORES_BY_PATTERN). b"
      by (simp add: SCORES_BY_PATTERN_def W_SM_def W_CR_def W_PH_def)
    have lm: "\<And>a. length a = 8 \<Longrightarrow> map fst (filter snd (zip a (map (\<lambda>v. v \<ge> 0) SCORES_BY_PATTERN))) = a"
      by (rule masked_all [OF _ all]) (simp add: SCORES_BY_PATTERN_def)
    have tp0: "tp (rows ! 0) = sample_pos (rows ! 0)" and fp0: "fp (rows ! 0) = sample_neg (rows ! 0)"
      using r0 len by (simp_all add: row_spec_def lm)
    have "\<forall>k < length rows. ?thrs ! k \<le> W_SM + W_CR + W_PH"
    proof (intro allI impI)
      fix k assume "k < length rows"
      then have "?thrs ! k \<in> set ?thrs" using lr by simp
      then show "?thrs ! k \<le> W_SM + W_CR + W_PH"
        unfolding t by (auto simp: W_SM_def W_CR_def W_PH_def)
    qed
    then show "length rows = 8
            \<and> tp (rows ! 0) = sample_pos (rows ! 0) \<and> fp (rows ! 0) = sample_neg (rows ! 0)
            \<and> (\<forall>k < length rows. threshold (rows ! k) \<le> W_SM + W_CR + W_PH)"
      using l8 tp0 fp0 th by simp
  qed
  show "\<exists>rows best i.
          eval_thresholds_from_counts counts (main_thresholds extra) = Inr rows
        \<and> main_best_youden counts extra = Inr (Some best)
        \<and> sorted (main_thresholds extra) \<and> distinct (main_thresholds extra)
        \<and> set (main_thresholds extra) = set SCORES_BY_PATTERN \<union> set extra
        \<and> length rows = length (main_thresholds extra)
        \<and> (\<forall>k < length rows. threshold (rows ! k) = main_thresholds extra ! k)
        \<and> i < length rows \<and> best = rows ! i
        \<and> (\<forall>k < length rows. youdenJ (rows ! k) \<le> youdenJ best)
        \<and> (\<forall>k < i. youdenJ (rows ! k) < youdenJ best)
        \<and> (\<forall>k < length rows. youdenJ (rows ! k) = youdenJ best \<longrightarrow> threshold best \<le> threshold (rows ! k))
        \<and> (extra = [] \<longrightarrow>
              length rows = 8
            \<and> tp (rows ! 0) = sample_pos (rows ! 0) \<and> fp (rows ! 0) = sample_neg (rows ! 0)
            \<and> (\<forall>k < length rows. threshold (rows ! k) \<le> W_SM + W_CR + W_PH))"
    using ev best main_thresholds_props [of extra] lr th a(2) a(3) a(4) ties dflt
    by (intro exI [of _ rows] exI [of _ "rows ! i"] exI [of _ i]) simp
next
  assume h: "length fpr0 = length thr0 \<and> length tpr0 = length thr0 \<and> (\<exists>t. Some t \<in> set thr0)
       \<and> length y = length x"
  then have h1: "length fpr0 = length thr0" and h2: "length tpr0 = length thr0"
    and h3: "\<exists>t. Some t \<in> set thr0" and h4: "length y = length x" by blast+
  from pick_thresholds_char [OF h1 h2 h3 h4]
  show "\<exists>fpr_a tpr_a thr_a j_idx best_j rec_thrs.
          pick_thresholds (fpr0, tpr0, thr0) y x = Inr ((fpr_a, tpr_a, thr_a), best_j, rec_thrs)
        \<and> thr_a = [t. Some t \<leftarrow> thr0] \<and> length fpr_a = length thr_a \<and> length tpr_a = length thr_a
        \<and> j_idx < length thr_a
        \<and> (\<forall>k < length thr_a. tpr_a ! k - fpr_a ! k \<le> tpr_a ! j_idx - fpr_a ! j_idx)
        \<and> (\<forall>k < j_idx. tpr_a ! k - fpr_a ! k < tpr_a ! j_idx - fpr_a ! j_idx)
        \<and> metrics_at_threshold y x (thr_a ! j_idx) = Inr best_j"
    by blast
qed

theorem youden_selection_witness:
  "length scenario_counts = 8
   \<and> main_thresholds [] = [0, 0.0884, 0.2946, 0.3830, 0.6170, 0.7054, 0.9116, 1]
   \<and> map_sum id (map youdenJ) (eval_thresholds_from_counts scenario_counts (main_thresholds [])) =
       Inr [0, 1, 1, 1, 1, 1, 1, 1]
   \<and> map_sum id (map_option threshold) (main_best_youden scenario_counts []) = Inr (Some 0.0884)
   \<and> map_sum id (map_option youdenJ) (main_best_youden scenario_counts []) = Inr (Some 1)
   \<and> map_sum id (\<lambda>r. threshold (fst (snd r))) (pick_thresholds sample_roc sample_y sample_x) = Inr 0.9"
proof -
  have a: "main_thresholds [] = [0, 0.0884, 0.2946, 0.3830, 0.6170, 0.7054, 0.9116, 1]"
    by code_simp
  have b: "map_sum id (map youdenJ) (eval_thresholds_from_counts scenario_counts (main_thresholds [])) =
       Inr [0, 1, 1, 1, 1, 1, 1, 1]"
    by code_simp
  have c: "map_sum id (map_option threshold) (main_best_youden scenario_counts []) = Inr (Some 0.0884)"
    by code_simp
  have d: "map_sum id (map_option youdenJ) (main_best_youden scenario_counts []) = Inr (Some 1)"
    by code_simp
  have e: "map_sum id (\<lambda>r. threshold (fst (snd r))) (pick_thresholds sample_roc sample_y sample_x) = Inr 0.9"
    by code_simp
  have l: "length scenario_counts = 8" by (simp add: scenario_counts_def)
  show ?thesis
    using a b c d e l
      youden_selection [of scenario_counts "[]" "[0, 0, 0.5, 0.5, 1]"
        "[None, Some 0.9, Some 0.6, Some 0.4, Some 0.1]" "[0, 0.5, 0.5, 1, 1]" sample_y sample_x]
    by simp
qed

text \<open>
  C3 as stated fails: on the histogram with one record of label 0 and pattern 7, the
  thresholds evaluated are the eight score levels, the greatest being the maximum score 1;
  the row reported has threshold 0 and youdenJ -1, while a threshold above the maximum
  score (2, predicting every record negative) has youdenJ 0.
\<close>

theorem youden_selection_counterexample:
  "main_thresholds [] = [0, 0.0884, 0.2946, 0.3830, 0.6170, 0.7054, 0.9116, 1]
   \<and> map_sum id (map_option threshold) (main_best_youden only_negative_counts []) = Inr (Some 0)
   \<and> map_sum id (map_option youdenJ) (main_best_youden only_negative_counts []) = Inr (Some (- 1))
   \<and> map_sum id (map tp) (eval_thresholds_from_counts only_negative_counts [2]) = Inr [0]
   \<and> map_sum id (map fp) (eval_thresholds_from_counts only_negative_counts [2]) = Inr [0]
   \<and> map_sum id (map youdenJ) (eval_thresholds_from_counts only_negative_counts [2]) = Inr [0]"
proof -
  have a: "main_thresholds [] = [0, 0.0884, 0.2946, 0.3830, 0.6170, 0.7054, 0.9116, 1]"
    by code_simp
  have b: "map_sum id (map_option threshold) (main_best_youden only_negative_counts []) = Inr (Some 0)"
    by code_simp
  have c: "map_sum id (map_option youdenJ) (main_best_youden only_negative_counts []) = Inr (Some (- 1))"
    by code_simp
  have d: "map_sum id (map tp) (eval_thresholds_from_counts only_negative_counts [2]) = Inr [0]"
    by code_simp
  have e: "map_sum id (map fp) (eval_thresholds_from_counts only_negative_counts [2]) = Inr [0]"
    by code_simp
  have f: "map_sum id (map youdenJ) (eval_thresholds_from_counts only_negative_counts [2]) = Inr [0]"
    by code_simp
  show ?thesis using a b c d e f by simp
qed

section \<open>Binarization\<close>












end
